theory Spec2Isabelle
  imports Main "HOL-Library.Log_Nat"
begin

section \<open>Strings and the two regular expressions of \<^verbatim>\<open>fsize.py\<close>\<close>

text \<open>
  A Python \<^verbatim>\<open>str\<close> is modelled as a \<^typ>\<open>string\<close>; a \<^typ>\<open>char\<close> stands for the code
  point of the same number, so the model covers text over the code points below 256.
  All character classes of the source are ranges of ASCII code points.
\<close>

definition in_range :: "char \<Rightarrow> char \<Rightarrow> char \<Rightarrow> bool" where
  "in_range lo hi c = ((of_char lo :: nat) \<le> of_char c \<and> (of_char c :: nat) \<le> of_char hi)"

text \<open>\<^verbatim>\<open>str.isspace\<close> on one character: TAB..CR, FS..US, space, NEL and NBSP.\<close>

definition isspace :: "char \<Rightarrow> bool" where
  "isspace c =
     (let n = (of_char c :: nat)
      in (9 \<le> n \<and> n \<le> 13) \<or> (28 \<le> n \<and> n \<le> 32) \<or> n = 133 \<or> n = 160)"

text \<open>\<^verbatim>\<open>line.strip()\<close>: whitespace removed at both ends.\<close>

definition strip :: "string \<Rightarrow> string" where
  "strip s = rev (dropWhile isspace (rev (dropWhile isspace s)))"

definition startswith :: "string \<Rightarrow> string \<Rightarrow> bool" where
  "startswith s p = (take (length p) s = p)"

text \<open>The class \<^verbatim>\<open>[a-zA-Z0-9\-._]\<close> of the requirement pattern.\<close>

definition name_char :: "char \<Rightarrow> bool" where
  "name_char c =
     (in_range CHR ''a'' CHR ''z'' c \<or> in_range CHR ''A'' CHR ''Z'' c \<or>
      in_range CHR ''0'' CHR ''9'' c \<or> c = CHR ''-'' \<or> c = CHR ''.'' \<or> c = CHR ''_'')"

text \<open>The class \<^verbatim>\<open>[=<>!]\<close> of the requirement pattern.\<close>

definition comparator_char :: "char \<Rightarrow> bool" where
  "comparator_char c = (c = CHR ''='' \<or> c = CHR ''<'' \<or> c = CHR ''>'' \<or> c = CHR ''!'')"

text \<open>The class \<^verbatim>\<open>[0-9]\<close>, negated in the pattern of the node version.\<close>

definition digit_char :: "char \<Rightarrow> bool" where
  "digit_char c = in_range CHR ''0'' CHR ''9'' c"

text \<open>
  A greedy \<^verbatim>\<open>[...]+\<close> at the start of \<open>s\<close>: every way it can match, as (matched, rest),
  in the order in which the backtracking matcher of \<^verbatim>\<open>re\<close> tries them: the longest
  run first, then one character less at a time, down to one character.
\<close>

definition plus_greedy :: "(char \<Rightarrow> bool) \<Rightarrow> string \<Rightarrow> (string \<times> string) list" where
  "plus_greedy P s =
     map (\<lambda>n. (take n s, drop n s)) (rev [1 ..< Suc (length (takeWhile P s))])"

text \<open>
  The optional group \<^verbatim>\<open>(?:[=<>!]+([a-zA-Z0-9\-._]+))?\<close> at the start of \<open>s\<close>: the values
  of capture group 2 in the order of the matcher's attempts; the greedy \<^verbatim>\<open>?\<close> tries the
  group first and the empty match (group 2 unset, \<^verbatim>\<open>None\<close>) last.
\<close>

definition optional_version :: "string \<Rightarrow> string option list" where
  "optional_version s =
     concat (map (\<lambda>(ops, r). map (\<lambda>(ver, r'). Some ver) (plus_greedy name_char r))
                 (plus_greedy comparator_char s))
     @ [None]"

text \<open>
  \<^verbatim>\<open>re.match(r'^([a-zA-Z0-9\-._]+)(?:[=<>!]+([a-zA-Z0-9\-._]+))?', line)\<close> and
  \<^verbatim>\<open>match.groups()\<close>: the first successful attempt, \<open>None\<close> when there is none.
\<close>

definition requirement_match :: "string \<Rightarrow> (string \<times> string option) option" where
  "requirement_match line =
     (case concat (map (\<lambda>(nm, r). map (\<lambda>v. (nm, v)) (optional_version r))
                       (plus_greedy name_char line)) of
        [] \<Rightarrow> None
      | m # _ \<Rightarrow> Some m)"

text \<open>
  Lines 70 to 75 of \<^verbatim>\<open>_analyze_python_requirements\<close>: what one line of the file
  contributes, the package name and the version (\<^verbatim>\<open>version or ""\<close>), or nothing.
\<close>

definition python_requirement :: "string \<Rightarrow> (string \<times> string) option" where
  "python_requirement raw =
     (let line = strip raw
      in if line \<noteq> [] \<and> \<not> startswith line ''#''
         then (case requirement_match line of
                 None \<Rightarrow> None
               | Some (package_name, v) \<Rightarrow>
                   Some (package_name, (case v of None \<Rightarrow> [] | Some x \<Rightarrow> x)))
         else None)"

text \<open>
  \<^verbatim>\<open>re.sub(r'^[^0-9]*', '', version)\<close>: the pattern matches once, at the start, the
  longest run of characters that are not digits, and that run is removed.
\<close>

definition clean_version :: "string \<Rightarrow> string" where
  "clean_version v = drop (length (takeWhile (\<lambda>c. \<not> digit_char c) v)) v"

section \<open>The data classes\<close>

record PackageInfo =
  name :: string
  size_bytes :: int
  is_paid :: bool
  version :: string
  description :: string
  latest_version :: string
  vulnerabilities :: string

record DockerSizeInfo =
  full :: int
  slim :: int
  alpine :: int

section \<open>Conflict detection\<close>

text \<open>
  \<^verbatim>\<open>_check_for_conflicts\<close>: the loop over the packages with its two local variables,
  the dictionary \<^verbatim>\<open>version_map\<close> and the list \<^verbatim>\<open>conflicts\<close>.
\<close>

fun conflicts_loop ::
  "PackageInfo list \<Rightarrow> (string \<rightharpoonup> string) \<Rightarrow> (string \<times> string \<times> string) list
   \<Rightarrow> (string \<times> string \<times> string) list" where
  "conflicts_loop [] version_map conflicts = conflicts"
| "conflicts_loop (package # rest) version_map conflicts =
     (case version_map (name package) of
        None \<Rightarrow> conflicts_loop rest (version_map(name package \<mapsto> version package)) conflicts
      | Some seen \<Rightarrow>
          if seen \<noteq> version package
          then conflicts_loop rest version_map
                 (conflicts @ [(name package, seen, version package)])
          else conflicts_loop rest version_map conflicts)"

definition check_for_conflicts :: "PackageInfo list \<Rightarrow> (string \<times> string \<times> string) list" where
  "check_for_conflicts package_list = conflicts_loop package_list Map.empty []"

text \<open>
  The specification's reading, for comparison: the first-seen version of a name is the
  version of its earliest occurrence, and occurrence \<open>i\<close> contributes one record exactly
  when the name occurs before \<open>i\<close> with a first-seen version different from its own.
\<close>

definition first_seen :: "PackageInfo list \<Rightarrow> string \<Rightarrow> string option" where
  "first_seen ps n = map_option version (find (\<lambda>p. name p = n) ps)"

definition conflict_at :: "PackageInfo list \<Rightarrow> nat \<Rightarrow> (string \<times> string \<times> string) list" where
  "conflict_at ps i =
     (case first_seen (take i ps) (name (ps ! i)) of
        None \<Rightarrow> []
      | Some v \<Rightarrow> if v \<noteq> version (ps ! i) then [(name (ps ! i), v, version (ps ! i))] else [])"

definition conflicts_spec :: "PackageInfo list \<Rightarrow> (string \<times> string \<times> string) list" where
  "conflicts_spec ps = concat (map (conflict_at ps) [0 ..< length ps])"

definition pkg :: "string \<Rightarrow> string \<Rightarrow> PackageInfo" where
  "pkg n v = \<lparr>name = n, size_bytes = 0, is_paid = False, version = v,
              description = [], latest_version = [], vulnerabilities = []\<rparr>"

section \<open>Exceptions, JSON values and the outside world\<close>

text \<open>
  The exceptions that can leave a function of the analyzer. A function that can raise
  returns \<open>Inl\<close> of the exception; the analyzer object is threaded through and returned
  updated, also when an exception is raised.
\<close>

datatype exn =
    FileNotFoundError string
  | ValueError
  | KeyError string
  | TypeError
  | AttributeError
  | OverflowError
  | OSError string

text \<open>A decoded JSON document; an object keeps its items in order, as a Python dict does.\<close>

datatype json =
    JNull
  | JBool bool
  | JNumber int
  | JString string
  | JArray "json list"
  | JObject "(string \<times> json) list"

text \<open>
  The payload of \<^verbatim>\<open>https://pypi.org/pypi/<name>/json\<close>, as far as the analyzer reads it.
  A key the payload lacks is \<open>None\<close>: subscripting it raises \<^verbatim>\<open>KeyError\<close>.
\<close>

record dist_file =
  packagetype :: "string option"
  file_size :: "int option"

record pypi_info =
  info_version :: "string option"
  info_description :: "string option"

record pypi_data =
  info :: "pypi_info option"
  releases :: "(string \<times> dist_file list) list option"

text \<open>The payload of \<^verbatim>\<open>https://registry.npmjs.org/<name>\<close>, likewise.\<close>

record npm_dist =
  unpackedSize :: "int option"
  dist_size :: "int option"

record npm_version =
  dist :: "npm_dist option"

record npm_data =
  dist_tags :: "(string \<times> string) list option"
  versions :: "(string \<times> npm_version) list option"
  npm_description :: "string option"

text \<open>
  \<^verbatim>\<open>requests.get\<close>: it raises (timeout, connection error), or it returns a response with
  a status code and a body for which \<^verbatim>\<open>response.json()\<close> gives the payload or raises
  (\<open>None\<close>).
\<close>

datatype 'a http = RequestFailed | Response nat "'a option"

text \<open>What the analyzer asks of the outside world, in the order asked.\<close>

datatype request =
    SizeLookup string string
  | DescriptionLookup string string
  | VersionLookup string string
  | AuditRun string string

text \<open>
  The outside world. The registries and the audit tools may answer differently over
  time: they are given the requests issued so far. \<open>open_lines\<close> is \<^verbatim>\<open>open(path, 'r')\<close>
  read line by line; \<open>open_json\<close> is \<^verbatim>\<open>open\<close> followed by \<^verbatim>\<open>json.load\<close>, \<open>Inr None\<close>
  when the decoder raises \<^verbatim>\<open>JSONDecodeError\<close> and \<open>Inl\<close> for every other exception of
  \<^verbatim>\<open>open\<close> or of reading the file. \<open>subprocess_run\<close> is
  \<^verbatim>\<open>subprocess.run(args, capture_output=True).stdout.decode()\<close>. A file of lines is
  read as a whole: an error in the middle of reading it, after earlier lines were
  handled, is not modelled; printed messages are not modelled either.
\<close>

record env =
  path_exists :: "string \<Rightarrow> bool"
  open_lines :: "string \<Rightarrow> exn + string list"
  open_json :: "string \<Rightarrow> exn + json option"
  pypi_get :: "request list \<Rightarrow> string \<Rightarrow> pypi_data http"
  npm_get :: "request list \<Rightarrow> string \<Rightarrow> npm_data http"
  subprocess_run :: "request list \<Rightarrow> string list \<Rightarrow> exn + string"

section \<open>The analyzer\<close>

text \<open>
  The mutable attributes of \<^verbatim>\<open>LocalRequirementsAnalyzer\<close>, and the log of the requests
  it has issued. \<^verbatim>\<open>known_paid_services\<close> and \<^verbatim>\<open>base_sizes\<close> are set once in
  \<^verbatim>\<open>__init__\<close> and never written again: they are constants here.
\<close>

record analyzer =
  pypi_cache :: "string \<rightharpoonup> int"
  npm_cache :: "string \<rightharpoonup> int"
  requests_log :: "request list"

definition init :: analyzer where
  "init = \<lparr>pypi_cache = Map.empty, npm_cache = Map.empty, requests_log = []\<rparr>"

definition known_paid_services :: "string \<Rightarrow> string set option" where
  "known_paid_services t =
     (if t = ''python'' then Some {''private-package'', ''enterprise-pkg''}
      else if t = ''node'' then Some {''private-module'', ''enterprise-pkg''}
      else None)"

definition base_sizes :: "string \<Rightarrow> DockerSizeInfo option" where
  "base_sizes t =
     (if t = ''python''
      then Some \<lparr>full = 100 * 1024 * 1024, slim = 40 * 1024 * 1024, alpine = 15 * 1024 * 1024\<rparr>
      else if t = ''node''
      then Some \<lparr>full = 85 * 1024 * 1024, slim = 35 * 1024 * 1024, alpine = 12 * 1024 * 1024\<rparr>
      else None)"

definition issue :: "request \<Rightarrow> analyzer \<Rightarrow> analyzer" where
  "issue r self = self\<lparr>requests_log := requests_log self @ [r]\<rparr>"

subsection \<open>Size lookups and their caches\<close>

text \<open>
  The body of the \<^verbatim>\<open>try\<close> of \<^verbatim>\<open>_get_pypi_package_size\<close> once the payload is decoded:
  \<open>Inl\<close> when it raises, \<open>Inr (Some size)\<close> when it reaches \<^verbatim>\<open>return size\<close>,
  \<open>Inr None\<close> when it falls through.
\<close>

definition first_size :: "dist_file list \<Rightarrow> exn + int option" where
  "first_size fs =
     (case file_size (hd fs) of None \<Rightarrow> Inl (KeyError ''size'') | Some s \<Rightarrow> Inr (Some s))"

definition pypi_size_of :: "pypi_data \<Rightarrow> exn + int option" where
  "pypi_size_of data =
     (case info data of
        None \<Rightarrow> Inr None
      | Some i \<Rightarrow>
         (case info_version i of
            None \<Rightarrow> Inr None
          | Some latest \<Rightarrow>
             (case releases data of
                None \<Rightarrow> Inl (KeyError ''releases'')
              | Some rel \<Rightarrow>
                 (case map_of rel latest of
                    None \<Rightarrow> Inr None
                  | Some files \<Rightarrow>
                      if list_ex (\<lambda>f. packagetype f = None) files
                      then Inl (KeyError ''packagetype'')
                      else let wheel_files =
                                 filter (\<lambda>f. packagetype f = Some ''bdist_wheel'') files
                           in if wheel_files \<noteq> [] then first_size wheel_files
                              else let sdist_files =
                                         filter (\<lambda>f. packagetype f = Some ''sdist'') files
                                   in if sdist_files \<noteq> [] then first_size sdist_files
                                      else Inr (Some 0)))))"

definition get_pypi_package_size :: "env \<Rightarrow> analyzer \<Rightarrow> string \<Rightarrow> int \<times> analyzer" where
  "get_pypi_package_size world self package_name =
     (case pypi_cache self package_name of
        Some s \<Rightarrow> (s, self)
      | None \<Rightarrow>
         (let self' = issue (SizeLookup ''python'' package_name) self
          in case pypi_get world (requests_log self) package_name of
               RequestFailed \<Rightarrow> (0, self')
             | Response status_code body \<Rightarrow>
                 if status_code = 200
                 then (case body of
                         None \<Rightarrow> (0, self')
                       | Some data \<Rightarrow>
                          (case pypi_size_of data of
                             Inl e \<Rightarrow> (0, self')
                           | Inr None \<Rightarrow> (0, self')
                           | Inr (Some s) \<Rightarrow>
                               (s, self'\<lparr>pypi_cache := (pypi_cache self')(package_name \<mapsto> s)\<rparr>)))
                 else (0, self')))"

text \<open>The same for \<^verbatim>\<open>_get_npm_package_size\<close>.\<close>

definition npm_size_of :: "npm_data \<Rightarrow> exn + int option" where
  "npm_size_of data =
     (case dist_tags data of
        None \<Rightarrow> Inl (KeyError ''dist-tags'')
      | Some tags \<Rightarrow>
         (let latest = (case map_of tags ''latest'' of None \<Rightarrow> [] | Some v \<Rightarrow> v)
          in if latest = [] then Inr None
             else (case versions data of
                     None \<Rightarrow> Inl (KeyError ''versions'')
                   | Some vs \<Rightarrow>
                      (case map_of vs latest of
                         None \<Rightarrow> Inr None
                       | Some version_data \<Rightarrow>
                          (case dist version_data of
                             None \<Rightarrow> Inl (KeyError ''dist'')
                           | Some d \<Rightarrow>
                              (let fallback = (case dist_size d of None \<Rightarrow> 0 | Some s \<Rightarrow> s)
                               in Inr (Some (case unpackedSize d of
                                               None \<Rightarrow> fallback
                                             | Some s \<Rightarrow> s))))))))"

definition get_npm_package_size :: "env \<Rightarrow> analyzer \<Rightarrow> string \<Rightarrow> int \<times> analyzer" where
  "get_npm_package_size world self package_name =
     (case npm_cache self package_name of
        Some s \<Rightarrow> (s, self)
      | None \<Rightarrow>
         (let self' = issue (SizeLookup ''node'' package_name) self
          in case npm_get world (requests_log self) package_name of
               RequestFailed \<Rightarrow> (0, self')
             | Response status_code body \<Rightarrow>
                 if status_code = 200
                 then (case body of
                         None \<Rightarrow> (0, self')
                       | Some data \<Rightarrow>
                          (case npm_size_of data of
                             Inl e \<Rightarrow> (0, self')
                           | Inr None \<Rightarrow> (0, self')
                           | Inr (Some s) \<Rightarrow>
                               (s, self'\<lparr>npm_cache := (npm_cache self')(package_name \<mapsto> s)\<rparr>)))
                 else (0, self')))"

subsection \<open>The other per-package lookups\<close>

definition is_paid_package :: "string \<Rightarrow> string \<Rightarrow> exn + bool" where
  "is_paid_package package_name package_type =
     (case known_paid_services package_type of
        None \<Rightarrow> Inl (KeyError package_type)
      | Some paid \<Rightarrow> Inr (package_name \<in> paid))"

definition no_description :: string where
  "no_description = ''No description available''"

definition get_pypi_package_description :: "env \<Rightarrow> analyzer \<Rightarrow> string \<Rightarrow> string \<times> analyzer" where
  "get_pypi_package_description world self package_name =
     (let self' = issue (DescriptionLookup ''python'' package_name) self
      in case pypi_get world (requests_log self) package_name of
           RequestFailed \<Rightarrow> (no_description, self')
         | Response status_code body \<Rightarrow>
             if status_code = 200
             then (case body of
                     None \<Rightarrow> (no_description, self')
                   | Some data \<Rightarrow>
                      (case info data of
                         None \<Rightarrow> (no_description, self')
                       | Some i \<Rightarrow>
                          (case info_description i of
                             None \<Rightarrow> (no_description, self')
                           | Some d \<Rightarrow> (d, self'))))
             else (no_description, self'))"

definition get_npm_package_description :: "env \<Rightarrow> analyzer \<Rightarrow> string \<Rightarrow> string \<times> analyzer" where
  "get_npm_package_description world self package_name =
     (let self' = issue (DescriptionLookup ''node'' package_name) self
      in case npm_get world (requests_log self) package_name of
           RequestFailed \<Rightarrow> (no_description, self')
         | Response status_code body \<Rightarrow>
             if status_code = 200
             then (case body of
                     None \<Rightarrow> (no_description, self')
                   | Some data \<Rightarrow>
                      (case npm_description data of
                         None \<Rightarrow> (no_description, self')
                       | Some d \<Rightarrow> (d, self')))
             else (no_description, self'))"

definition get_latest_pypi_version :: "env \<Rightarrow> analyzer \<Rightarrow> string \<Rightarrow> string \<times> analyzer" where
  "get_latest_pypi_version world self package_name =
     (let self' = issue (VersionLookup ''python'' package_name) self
      in case pypi_get world (requests_log self) package_name of
           RequestFailed \<Rightarrow> ([], self')
         | Response status_code body \<Rightarrow>
             if status_code = 200
             then (case body of
                     None \<Rightarrow> ([], self')
                   | Some data \<Rightarrow>
                      (case info data of
                         None \<Rightarrow> ([], self')
                       | Some i \<Rightarrow>
                          (case info_version i of
                             None \<Rightarrow> ([], self')
                           | Some v \<Rightarrow> (v, self'))))
             else ([], self'))"

definition get_latest_npm_version :: "env \<Rightarrow> analyzer \<Rightarrow> string \<Rightarrow> string \<times> analyzer" where
  "get_latest_npm_version world self package_name =
     (let self' = issue (VersionLookup ''node'' package_name) self
      in case npm_get world (requests_log self) package_name of
           RequestFailed \<Rightarrow> ([], self')
         | Response status_code body \<Rightarrow>
             if status_code = 200
             then (case body of
                     None \<Rightarrow> ([], self')
                   | Some data \<Rightarrow>
                      (case dist_tags data of
                         None \<Rightarrow> ([], self')
                       | Some tags \<Rightarrow>
                          (case map_of tags ''latest'' of
                             None \<Rightarrow> ([], self')
                           | Some v \<Rightarrow> (v, self'))))
             else ([], self'))"

text \<open>
  \<^verbatim>\<open>_check_security_vulnerabilities\<close> has no \<^verbatim>\<open>try\<close>: what \<^verbatim>\<open>subprocess.run\<close> or
  \<^verbatim>\<open>decode\<close> raises leaves the function.
\<close>

definition check_security_vulnerabilities ::
  "env \<Rightarrow> analyzer \<Rightarrow> string \<Rightarrow> string \<Rightarrow> (exn + string) \<times> analyzer" where
  "check_security_vulnerabilities world self package_name package_type =
     (if package_type = ''python''
      then (map_sum id strip
              (subprocess_run world (requests_log self)
                 [''safety'', ''check'', ''--bare'', ''--dependency'', package_name]),
            issue (AuditRun ''python'' package_name) self)
      else if package_type = ''node''
      then (map_sum id strip
              (subprocess_run world (requests_log self)
                 [''npm'', ''audit'', ''package'', package_name]),
            issue (AuditRun ''node'' package_name) self)
      else (Inr ''No security audit available'', self))"

subsection \<open>Resolving one requirement\<close>

text \<open>
  Lines 77 to 91: the five lookups for one matched line and the \<^verbatim>\<open>PackageInfo\<close> built
  from them. Lines 104 to 118 do the same for one item of a node manifest.
\<close>

definition resolve_python ::
  "env \<Rightarrow> analyzer \<Rightarrow> string \<Rightarrow> string \<Rightarrow> (exn + PackageInfo) \<times> analyzer" where
  "resolve_python world self package_name ver =
     (let (sz, s1) = get_pypi_package_size world self package_name
      in case is_paid_package package_name ''python'' of
           Inl e \<Rightarrow> (Inl e, s1)
         | Inr paid \<Rightarrow>
            (let (descr, s2) = get_pypi_package_description world s1 package_name;
                 (latest, s3) = get_latest_pypi_version world s2 package_name;
                 (vuln, s4) = check_security_vulnerabilities world s3 package_name ''python''
             in case vuln of
                  Inl e \<Rightarrow> (Inl e, s4)
                | Inr v \<Rightarrow>
                    (Inr \<lparr>name = package_name, size_bytes = sz, is_paid = paid, version = ver,
                          description = descr, latest_version = latest, vulnerabilities = v\<rparr>,
                     s4)))"

definition resolve_node ::
  "env \<Rightarrow> analyzer \<Rightarrow> string \<Rightarrow> string \<Rightarrow> (exn + PackageInfo) \<times> analyzer" where
  "resolve_node world self package_name ver =
     (let (sz, s1) = get_npm_package_size world self package_name
      in case is_paid_package package_name ''node'' of
           Inl e \<Rightarrow> (Inl e, s1)
         | Inr paid \<Rightarrow>
            (let (descr, s2) = get_npm_package_description world s1 package_name;
                 (latest, s3) = get_latest_npm_version world s2 package_name;
                 (vuln, s4) = check_security_vulnerabilities world s3 package_name ''node''
             in case vuln of
                  Inl e \<Rightarrow> (Inl e, s4)
                | Inr v \<Rightarrow>
                    (Inr \<lparr>name = package_name, size_bytes = sz, is_paid = paid, version = ver,
                          description = descr, latest_version = latest, vulnerabilities = v\<rparr>,
                     s4)))"

subsection \<open>Reading a manifest\<close>

text \<open>The loop of \<^verbatim>\<open>_analyze_python_requirements\<close> over the lines of the file.\<close>

fun python_loop ::
  "env \<Rightarrow> string list \<Rightarrow> analyzer \<Rightarrow> PackageInfo list
   \<Rightarrow> (exn + PackageInfo list) \<times> analyzer" where
  "python_loop world [] self results = (Inr results, self)"
| "python_loop world (raw # rest) self results =
     (case python_requirement raw of
        None \<Rightarrow> python_loop world rest self results
      | Some (package_name, ver) \<Rightarrow>
         (case resolve_python world self package_name ver of
            (Inl e, self') \<Rightarrow> (Inl e, self')
          | (Inr p, self') \<Rightarrow> python_loop world rest self' (results @ [p])))"

definition analyze_python_requirements ::
  "env \<Rightarrow> analyzer \<Rightarrow> string \<Rightarrow> (exn + PackageInfo list) \<times> analyzer" where
  "analyze_python_requirements world self requirements_path =
     (case open_lines world requirements_path of
        Inl e \<Rightarrow> (Inl e, self)
      | Inr ls \<Rightarrow> python_loop world ls self [])"

text \<open>
  A Python dict as the list of its items in insertion order: storing under a key that is
  present replaces the value in place, a new key goes to the end.
  \<^verbatim>\<open>{**a, **b}\<close> stores the items of \<open>a\<close>, then those of \<open>b\<close>, into an empty dict.
\<close>

fun dict_set :: "(string \<times> 'v) list \<Rightarrow> string \<Rightarrow> 'v \<Rightarrow> (string \<times> 'v) list" where
  "dict_set [] k v = [(k, v)]"
| "dict_set ((k', v') # d) k v = (if k' = k then (k, v) # d else (k', v') # dict_set d k v)"

definition dict_merge :: "(string \<times> 'v) list \<Rightarrow> (string \<times> 'v) list \<Rightarrow> (string \<times> 'v) list" where
  "dict_merge a b = foldl (\<lambda>d (k, v). dict_set d k v) [] (a @ b)"

text \<open>
  \<^verbatim>\<open>package_data.get(key, {})\<close> unpacked by \<^verbatim>\<open>**\<close>: only a dict has \<^verbatim>\<open>get\<close>, and only a
  mapping can be unpacked.
\<close>

definition get_mapping :: "json \<Rightarrow> string \<Rightarrow> exn + (string \<times> json) list" where
  "get_mapping package_data k =
     (case package_data of
        JObject items \<Rightarrow>
          (case map_of items k of
             None \<Rightarrow> Inr []
           | Some (JObject m) \<Rightarrow> Inr m
           | Some _ \<Rightarrow> Inl TypeError)
      | _ \<Rightarrow> Inl AttributeError)"

definition all_deps_of :: "json \<Rightarrow> exn + (string \<times> json) list" where
  "all_deps_of package_data =
     (case get_mapping package_data ''dependencies'' of
        Inl e \<Rightarrow> Inl e
      | Inr deps \<Rightarrow>
         (case get_mapping package_data ''devDependencies'' of
            Inl e \<Rightarrow> Inl e
          | Inr dev \<Rightarrow> Inr (dict_merge deps dev)))"

text \<open>The loop of \<^verbatim>\<open>_analyze_node_requirements\<close> over \<^verbatim>\<open>all_deps.items()\<close>.\<close>

fun node_loop ::
  "env \<Rightarrow> (string \<times> json) list \<Rightarrow> analyzer \<Rightarrow> PackageInfo list
   \<Rightarrow> (exn + PackageInfo list) \<times> analyzer" where
  "node_loop world [] self results = (Inr results, self)"
| "node_loop world ((package_name, v) # rest) self results =
     (case v of
        JString ver \<Rightarrow>
         (case resolve_node world self package_name (clean_version ver) of
            (Inl e, self') \<Rightarrow> (Inl e, self')
          | (Inr p, self') \<Rightarrow> node_loop world rest self' (results @ [p]))
      | _ \<Rightarrow> (Inl TypeError, self))"

definition analyze_node_requirements ::
  "env \<Rightarrow> analyzer \<Rightarrow> string \<Rightarrow> (exn + PackageInfo list) \<times> analyzer" where
  "analyze_node_requirements world self package_json_path =
     (case open_json world package_json_path of
        Inl e \<Rightarrow> (Inl e, self)
      | Inr None \<Rightarrow> (Inr [], self)
      | Inr (Some package_data) \<Rightarrow>
         (case all_deps_of package_data of
            Inl e \<Rightarrow> (Inl e, self)
          | Inr all_deps \<Rightarrow> node_loop world all_deps self []))"

subsection \<open>The entry points\<close>

definition analyze_requirements ::
  "env \<Rightarrow> analyzer \<Rightarrow> string \<Rightarrow> string \<Rightarrow> (exn + PackageInfo list) \<times> analyzer" where
  "analyze_requirements world self file_path file_type =
     (if \<not> path_exists world file_path
      then (Inl (FileNotFoundError (''File not found: '' @ file_path)), self)
      else if file_type = ''python'' then analyze_python_requirements world self file_path
      else if file_type = ''node'' then analyze_node_requirements world self file_path
      else (Inl ValueError, self))"

fun projects_loop ::
  "env \<Rightarrow> string list \<Rightarrow> string \<Rightarrow> analyzer \<Rightarrow> PackageInfo list
   \<Rightarrow> (exn + PackageInfo list) \<times> analyzer" where
  "projects_loop world [] file_type self all_packages = (Inr all_packages, self)"
| "projects_loop world (path # rest) file_type self all_packages =
     (case analyze_requirements world self path file_type of
        (Inl e, self') \<Rightarrow> (Inl e, self')
      | (Inr packages, self') \<Rightarrow>
          projects_loop world rest file_type self' (all_packages @ packages))"

definition analyze_multiple_projects ::
  "env \<Rightarrow> analyzer \<Rightarrow> string list \<Rightarrow> string \<Rightarrow> (exn + PackageInfo list) \<times> analyzer" where
  "analyze_multiple_projects world self file_paths file_type =
     projects_loop world file_paths file_type self []"

section \<open>The image size estimate\<close>

text \<open>
  \<^verbatim>\<open>int(packages_size * 0.15)\<close> is computed in binary64: the integer is converted to a
  double, multiplied by the double nearest to 0.15, which is
  \<open>5404319552844595 / 2 ^ 55\<close>, and the product is truncated towards zero. Each step
  rounds to 53 significant bits, to nearest, ties to even.
\<close>

definition bit_length :: "nat \<Rightarrow> nat" where
  "bit_length n = floorlog 2 n"

definition round53 :: "nat \<Rightarrow> nat" where
  "round53 n =
     (let s = bit_length n - 53
      in if s = 0 then n
         else let q = n div 2 ^ s; r = n mod 2 ^ s; h = 2 ^ (s - 1)
              in (if h < r \<or> (r = h \<and> odd q) then q + 1 else q) * 2 ^ s)"

text \<open>
  The conversion of an \<^verbatim>\<open>int\<close> to a double (an integer again); \<^verbatim>\<open>OverflowError\<close> when
  the rounded value is beyond the largest double.
\<close>

definition float_of_int :: "int \<Rightarrow> exn + int" where
  "float_of_int i =
     (let d = round53 (nat \<bar>i\<bar>)
      in if 2 ^ 1024 \<le> d then Inl OverflowError else Inr (sgn i * int d))"

text \<open>The double \<open>d * 0.15\<close> for an integer double \<open>d\<close>, as its numerator over \<open>2 ^ 55\<close>.\<close>

definition times_0_15 :: "int \<Rightarrow> int" where
  "times_0_15 d = sgn d * int (round53 (nat \<bar>d\<bar> * 5404319552844595))"

text \<open>\<^verbatim>\<open>int(x)\<close> for the double \<open>x / 2 ^ 55\<close>: truncation towards zero.\<close>

definition int_of_float :: "int \<Rightarrow> int" where
  "int_of_float x = sgn x * (\<bar>x\<bar> div 2 ^ 55)"

definition overhead_of :: "int \<Rightarrow> exn + int" where
  "overhead_of packages_size = map_sum id (\<lambda>d. int_of_float (times_0_15 d)) (float_of_int packages_size)"

definition estimate_docker_sizes :: "PackageInfo list \<Rightarrow> string \<Rightarrow> exn + DockerSizeInfo" where
  "estimate_docker_sizes packages package_type =
     (let packages_size = sum_list (map size_bytes packages)
      in case overhead_of packages_size of
           Inl e \<Rightarrow> Inl e
         | Inr overhead \<Rightarrow>
            (case base_sizes package_type of
               None \<Rightarrow> Inl (KeyError package_type)
             | Some b \<Rightarrow>
                 Inr \<lparr>full = full b + packages_size + overhead,
                      slim = slim b + packages_size + overhead,
                      alpine = alpine b + packages_size + overhead\<rparr>))"

section \<open>Auxiliary definitions for the statements\<close>

text \<open>
  What capture group 2 holds when the name has been matched and \<open>r\<close> is the rest of the
  line: the run of name characters after a run of comparators, when both are non-empty.
\<close>

definition version_group :: "string \<Rightarrow> string option" where
  "version_group r =
     (let ops = takeWhile comparator_char r;
          ver = takeWhile name_char (dropWhile comparator_char r)
      in if ops \<noteq> [] \<and> ver \<noteq> [] then Some ver else None)"

text \<open>The two fields of a record that come from the manifest.\<close>

definition name_version :: "PackageInfo \<Rightarrow> string \<times> string" where
  "name_version p = (name p, version p)"

text \<open>
  A small world for the concrete instances: a requirements file of four lines, three
  package manifests (one that does not decode), one package known to each registry, and
  audit tools that print nothing.
\<close>

definition flask_data :: pypi_data where
  "flask_data =
     \<lparr>info = Some \<lparr>info_version = Some ''3.0.0'', info_description = Some ''A micro framework''\<rparr>,
      releases = Some [(''3.0.0'',
        [\<lparr>packagetype = Some ''sdist'', file_size = Some 700000\<rparr>,
         \<lparr>packagetype = Some ''bdist_wheel'', file_size = Some 100000\<rparr>])]\<rparr>"

definition a_data :: npm_data where
  "a_data =
     \<lparr>dist_tags = Some [(''latest'', ''2.1.0'')],
      versions = Some [(''2.1.0'', \<lparr>dist = Some \<lparr>unpackedSize = Some 5000, dist_size = None\<rparr>\<rparr>)],
      npm_description = Some ''A module''\<rparr>"

definition demo_manifest :: json where
  "demo_manifest =
     JObject [(''dependencies'', JObject [(''a'', JString ''^1.0.0'')]),
              (''devDependencies'', JObject [(''a'', JString ''2.0.0'')])]"

definition demo_world :: env where
  "demo_world =
     \<lparr>path_exists = (\<lambda>p. p = ''requirements.txt'' \<or> p = ''package.json'' \<or> p = ''broken.json''
                          \<or> p = ''empty.json''),
      open_lines = (\<lambda>p. if p = ''requirements.txt''
                         then Inr [''flask==2.0.1'' @ [CHR 0x0A], ''# pinned'' @ [CHR 0x0A],
                                   [CHR 0x0A], ''flask'' @ [CHR 0x0A]]
                         else Inl (FileNotFoundError p)),
      open_json = (\<lambda>p. if p = ''package.json''
                        then Inr (Some demo_manifest)
                        else if p = ''empty.json'' then Inr (Some (JObject []))
                        else if p = ''broken.json'' then Inr None
                        else Inl (FileNotFoundError p)),
      pypi_get = (\<lambda>issued n. if n = ''flask'' then Response 200 (Some flask_data)
                           else Response 404 None),
      npm_get = (\<lambda>issued n. if n = ''a'' then Response 200 (Some a_data) else RequestFailed),
      subprocess_run = (\<lambda>issued args. Inr [])\<rparr>"

text \<open>The same world on a machine where the \<^verbatim>\<open>safety\<close> tool is not installed.\<close>

definition no_safety_world :: env where
  "no_safety_world =
     demo_world\<lparr>subprocess_run :=
       (\<lambda>issued args. if hd args = ''safety'' then Inl (FileNotFoundError ''safety'') else Inr [])\<rparr>"








text \<open>A package of eight petabytes, for the estimate.\<close>

definition big_package :: PackageInfo where
  "big_package = \<lparr>name = ''big'', size_bytes = 8000000000000013, is_paid = False, version = [],
                   description = [], latest_version = [], vulnerabilities = []\<rparr>"

section \<open>The requirement pattern\<close>

lemma comparator_not_name: "comparator_char c \<Longrightarrow> \<not> name_char c"
  by (auto simp: comparator_char_def name_char_def in_range_def)

lemma hash_not_name: "\<not> name_char CHR ''#''"
  by (simp add: name_char_def in_range_def)

lemma name_not_space: "name_char c \<Longrightarrow> \<not> isspace c"
  by (auto simp: name_char_def in_range_def isspace_def Let_def)

lemma plus_greedy_Nil: "takeWhile P s = [] \<Longrightarrow> plus_greedy P s = []"
  by (simp add: plus_greedy_def)

lemma plus_greedy_Cons:
  assumes "takeWhile P s \<noteq> []"
  shows "plus_greedy P s =
           (takeWhile P s, dropWhile P s) #
           map (\<lambda>n. (take n s, drop n s)) (rev [1 ..< length (takeWhile P s)])"
proof -
  let ?k = "length (takeWhile P s)"
  have k: "1 \<le> ?k" using assms by (cases "takeWhile P s") auto
  have "take ?k s = takeWhile P s" by (rule takeWhile_eq_take [symmetric])
  moreover have "drop ?k s = dropWhile P s" by (rule dropWhile_eq_drop [symmetric])
  moreover have "rev [1 ..< Suc ?k] = ?k # rev [1 ..< ?k]" using k by simp
  ultimately show ?thesis by (simp add: plus_greedy_def)
qed

lemma shorter_run_blocks:
  assumes "n \<in> set (rev [1 ..< length (takeWhile comparator_char s)])"
  shows "plus_greedy name_char (drop n s) = []"
proof -
  from assms have n: "n < length (takeWhile comparator_char s)" by simp
  then have ns: "n < length s"
    using length_takeWhile_le [of comparator_char s] by linarith
  have "comparator_char (s ! n)"
    using n by (metis nth_mem set_takeWhileD takeWhile_nth)
  then have "\<not> name_char (s ! n)" by (rule comparator_not_name)
  moreover have "drop n s = s ! n # drop (Suc n) s"
    using ns by (simp add: Cons_nth_drop_Suc)
  ultimately show ?thesis by (simp add: plus_greedy_def)
qed

lemma optional_version_hd:
  "\<exists>rest. optional_version r = version_group r # rest"
proof (cases "takeWhile comparator_char r = []")
  case True
  then show ?thesis
    by (simp add: optional_version_def plus_greedy_Nil version_group_def)
next
  case ops: False
  let ?r2 = "dropWhile comparator_char r"
  show ?thesis
  proof (cases "takeWhile name_char ?r2 = []")
    case True
    have c: "concat (map (\<lambda>(ops, r). map (\<lambda>(ver, r'). Some ver) (plus_greedy name_char r))
                 (plus_greedy comparator_char r)) = []"
      using True shorter_run_blocks [of _ r]
      by (auto simp: plus_greedy_Cons [OF ops] plus_greedy_Nil)
    show ?thesis
      unfolding optional_version_def c using True ops by (simp add: version_group_def)
  next
    case False
    then show ?thesis
      using ops
      by (simp add: optional_version_def version_group_def plus_greedy_Cons)
  qed
qed

lemma requirement_match_eq:
  "requirement_match line =
     (if takeWhile name_char line = [] then None
      else Some (takeWhile name_char line, version_group (dropWhile name_char line)))"
proof (cases "takeWhile name_char line = []")
  case True
  then show ?thesis by (simp add: requirement_match_def plus_greedy_Nil)
next
  case False
  obtain rest where "optional_version (dropWhile name_char line)
      = version_group (dropWhile name_char line) # rest"
    using optional_version_hd by blast
  then show ?thesis
    using False by (simp add: requirement_match_def plus_greedy_Cons)
qed

section \<open>Conflict detection follows the first-seen version\<close>

lemma find_snoc:
  "find P (xs @ [y]) = (case find P xs of None \<Rightarrow> (if P y then Some y else None) | Some x \<Rightarrow> Some x)"
  by (induction xs) auto

lemma first_seen_snoc:
  "first_seen (pre @ [p]) =
     (case first_seen pre (name p) of
        None \<Rightarrow> (first_seen pre)(name p \<mapsto> version p)
      | Some v \<Rightarrow> first_seen pre)"
  by (rule ext) (auto simp: first_seen_def find_snoc split: option.splits)

lemma conflict_at_here:
  "conflict_at (pre @ p # rest) (length pre) =
     (case first_seen pre (name p) of
        None \<Rightarrow> []
      | Some v \<Rightarrow> if v \<noteq> version p then [(name p, v, version p)] else [])"
  by (simp add: conflict_at_def split: option.splits)

lemma conflicts_loop_spec:
  "conflicts_loop rest (first_seen pre) acc =
     acc @ concat (map (conflict_at (pre @ rest)) [length pre ..< length pre + length rest])"
proof (induction rest arbitrary: pre acc)
  case Nil
  then show ?case by simp
next
  case (Cons p rest)
  have range: "[length pre ..< length pre + length (p # rest)] =
      length pre # [length (pre @ [p]) ..< length (pre @ [p]) + length rest]"
    by (subst upt_conv_Cons) simp_all
  have app: "pre @ p # rest = (pre @ [p]) @ rest" by simp
  show ?case
  proof (cases "first_seen pre (name p)")
    case None
    have here: "conflict_at (pre @ p # rest) (length pre) = []"
      using None by (simp add: conflict_at_here)
    have "conflicts_loop (p # rest) (first_seen pre) acc =
          conflicts_loop rest (first_seen (pre @ [p])) acc"
      using None by (simp add: first_seen_snoc)
    also have "\<dots> = acc @ concat (map (conflict_at ((pre @ [p]) @ rest))
                 [length (pre @ [p]) ..< length (pre @ [p]) + length rest])"
      by (rule Cons.IH)
    finally show ?thesis
      unfolding range by (simp add: here del: upt_Suc)
  next
    case (Some v)
    let ?new = "if v \<noteq> version p then [(name p, v, version p)] else []"
    have here: "conflict_at (pre @ p # rest) (length pre) = ?new"
      using Some by (simp add: conflict_at_here)
    have "conflicts_loop (p # rest) (first_seen pre) acc =
          conflicts_loop rest (first_seen (pre @ [p])) (acc @ ?new)"
      using Some by (simp add: first_seen_snoc)
    also have "\<dots> = (acc @ ?new) @ concat (map (conflict_at ((pre @ [p]) @ rest))
                 [length (pre @ [p]) ..< length (pre @ [p]) + length rest])"
      by (rule Cons.IH)
    finally show ?thesis
      unfolding range by (simp add: here del: upt_Suc)
  qed
qed

lemma check_for_conflicts_spec: "check_for_conflicts ps = conflicts_spec ps"
proof -
  have "first_seen [] = Map.empty" by (rule ext) (simp add: first_seen_def)
  then show ?thesis
    using conflicts_loop_spec [of ps "[]" "[]"]
    by (simp add: check_for_conflicts_def conflicts_spec_def)
qed

section \<open>The records of a Python manifest\<close>

lemma resolve_python_name_version:
  "resolve_python world self n v = (Inr p, self') \<Longrightarrow> name p = n \<and> version p = v"
  by (auto simp: resolve_python_def Let_def split: prod.splits sum.splits)

lemma resolve_node_name_version:
  "resolve_node world self n v = (Inr p, self') \<Longrightarrow> name p = n \<and> version p = v"
  by (auto simp: resolve_node_def Let_def split: prod.splits sum.splits)

lemma python_loop_records:
  "python_loop world ls self acc = (Inr rs, self') \<Longrightarrow>
     map name_version rs = map name_version acc @ List.map_filter python_requirement ls"
proof (induction ls arbitrary: self acc)
  case Nil
  then show ?case by (simp add: map_filter_simps)
next
  case (Cons raw ls)
  show ?case
  proof (cases "python_requirement raw")
    case None
    then show ?thesis using Cons by (simp add: map_filter_simps)
  next
    case (Some nv)
    obtain n v where nv: "nv = (n, v)" by (cases nv)
    obtain r s1 where res: "resolve_python world self n v = (r, s1)"
      by (cases "resolve_python world self n v")
    show ?thesis
    proof (cases r)
      case (Inl e)
      then show ?thesis using Cons.prems Some nv res by simp
    next
      case (Inr p)
      then have "python_loop world ls s1 (acc @ [p]) = (Inr rs, self')"
        using Cons.prems Some nv res by simp
      then have "map name_version rs =
          map name_version (acc @ [p]) @ List.map_filter python_requirement ls"
        by (rule Cons.IH)
      moreover have "name_version p = (n, v)"
        using resolve_python_name_version res Inr by (simp add: name_version_def)
      ultimately show ?thesis using Some nv by (simp add: map_filter_simps)
    qed
  qed
qed

lemma analyze_python_records:
  assumes "analyze_python_requirements world self path = (Inr rs, self')"
  shows "\<exists>ls. open_lines world path = Inr ls \<and>
           map name_version rs = List.map_filter python_requirement ls"
proof (cases "open_lines world path")
  case (Inl e)
  then show ?thesis using assms by (simp add: analyze_python_requirements_def)
next
  case (Inr ls)
  then have "python_loop world ls self [] = (Inr rs, self')"
    using assms by (simp add: analyze_python_requirements_def)
  from python_loop_records [OF this] Inr show ?thesis by simp
qed

lemma strip_first:
  assumes "dropWhile isspace raw = c # r"
  shows "strip raw = c # rev (dropWhile isspace (rev r))"
proof -
  have "\<not> isspace c" using assms by (metis hd_dropWhile list.sel(1) list.distinct(1))
  then show ?thesis using assms by (simp add: strip_def dropWhile_append3)
qed

lemma strip_blank: "list_all isspace raw \<Longrightarrow> strip raw = []"
proof -
  assume "list_all isspace raw"
  then have d: "dropWhile isspace raw = []"
    unfolding dropWhile_eq_Nil_conv by (simp add: list_all_iff)
  show ?thesis unfolding strip_def d by simp
qed

lemma python_requirement_eq:
  assumes "strip raw = c # cs"
  shows "python_requirement raw =
     (if name_char c
      then Some (takeWhile name_char (strip raw),
                 if takeWhile comparator_char (dropWhile name_char (strip raw)) = [] then []
                 else takeWhile name_char
                        (dropWhile comparator_char (dropWhile name_char (strip raw))))
      else None)"
proof (cases "name_char c")
  case True
  then have "c \<noteq> CHR ''#''" using hash_not_name by auto
  then show ?thesis
    using assms True
    by (simp add: python_requirement_def startswith_def requirement_match_eq version_group_def Let_def)
next
  case False
  then show ?thesis
    using assms
    by (simp add: python_requirement_def startswith_def requirement_match_eq)
qed

section \<open>The claims about parsing and conflicts\<close>

text \<open>
  Claim C4. Conflict detection compares every later occurrence of a name with the version
  of its first occurrence, which is never updated: the result is, in order, one record
  for each occurrence whose version differs from the first-seen one. On the input
  x 1.0, y 2.0, x 1.0, x 2.0 it is the single record (x, 1.0, 2.0); two later occurrences
  that differ from the first give two records, both against the first; an occurrence equal
  to the first gives none; the comparison is string inequality, so an empty first version
  against a non-empty one is a conflict.
\<close>

theorem conflicts_against_first_seen:
  "check_for_conflicts ps = conflicts_spec ps
   \<and> check_for_conflicts [pkg ''x'' ''1.0'', pkg ''y'' ''2.0'', pkg ''x'' ''1.0'', pkg ''x'' ''2.0'']
       = [(''x'', ''1.0'', ''2.0'')]
   \<and> (v2 \<noteq> v1 \<and> v3 \<noteq> v1 \<longrightarrow>
        check_for_conflicts [pkg n v1, pkg n v2, pkg n v3] = [(n, v1, v2), (n, v1, v3)])
   \<and> check_for_conflicts [pkg n v1, pkg n v1] = []
   \<and> (v1 \<noteq> [] \<longrightarrow> check_for_conflicts [pkg n [], pkg n v1] = [(n, [], v1)])"
proof -
  have "check_for_conflicts ps = conflicts_spec ps" by (rule check_for_conflicts_spec)
  moreover have "check_for_conflicts
      [pkg ''x'' ''1.0'', pkg ''y'' ''2.0'', pkg ''x'' ''1.0'', pkg ''x'' ''2.0'']
      = [(''x'', ''1.0'', ''2.0'')]"
    by (simp add: check_for_conflicts_def pkg_def)
  moreover have "check_for_conflicts [pkg n v1, pkg n v2, pkg n v3] = [(n, v1, v2), (n, v1, v3)]"
    if "v2 \<noteq> v1 \<and> v3 \<noteq> v1"
    using that by (auto simp: check_for_conflicts_def pkg_def)
  moreover have "check_for_conflicts [pkg n v1, pkg n v1] = []"
    by (simp add: check_for_conflicts_def pkg_def)
  moreover have "check_for_conflicts [pkg n [], pkg n v1] = [(n, [], v1)]" if "v1 \<noteq> []"
    using that by (auto simp: check_for_conflicts_def pkg_def)
  ultimately show ?thesis by blast
qed

theorem conflicts_against_first_seen_witness:
  "check_for_conflicts [pkg ''x'' ''1.0'', pkg ''x'' ''2.0'', pkg ''x'' ''3.0'']
     = [(''x'', ''1.0'', ''2.0''), (''x'', ''1.0'', ''3.0'')]
   \<and> check_for_conflicts [pkg ''x'' [], pkg ''x'' ''3.0''] = [(''x'', [], ''3.0'')]"
proof -
  have a: "''2.0'' \<noteq> ''1.0'' \<and> ''3.0'' \<noteq> ''1.0''" by simp
  have b: "''3.0'' \<noteq> []" by simp
  show ?thesis
    using a b
      conflicts_against_first_seen [of "[]" "''2.0''" "''1.0''" "''3.0''" "''x''"]
      conflicts_against_first_seen [of "[]" "''2.0''" "''3.0''" "''3.0''" "''x''"]
    by blast
qed

text \<open>
  Claim C7. In a Python manifest the line \<^verbatim>\<open>flask==2.0.1\<close> gives the name flask with the
  version 2.0.1, the line \<^verbatim>\<open>flask\<close> gives the name flask with the empty version, and a
  line of whitespace only or one whose first non-blank character is \<^verbatim>\<open>#\<close> gives no
  record. The records \<^verbatim>\<open>_analyze_python_requirements\<close> returns carry, in order, exactly
  the names and versions of the lines that give one.
\<close>

theorem python_line_records:
  "python_requirement ''flask==2.0.1'' = Some (''flask'', ''2.0.1'')
   \<and> python_requirement ''flask'' = Some (''flask'', [])
   \<and> (list_all isspace raw \<longrightarrow> python_requirement raw = None)
   \<and> (startswith (dropWhile isspace raw) ''#'' \<longrightarrow> python_requirement raw = None)
   \<and> (fst (analyze_python_requirements world self path) = Inr rs \<longrightarrow>
        (\<exists>ls. open_lines world path = Inr ls \<and>
              map name_version rs = List.map_filter python_requirement ls))"
proof -
  have a: "python_requirement ''flask==2.0.1'' = Some (''flask'', ''2.0.1'')" by code_simp
  have b: "python_requirement ''flask'' = Some (''flask'', [])" by code_simp
  have c: "python_requirement raw = None" if "list_all isspace raw"
    using strip_blank [OF that] by (simp add: python_requirement_def)
  have d: "python_requirement raw = None" if h: "startswith (dropWhile isspace raw) ''#''"
  proof -
    from h obtain r where "dropWhile isspace raw = CHR ''#'' # r"
      by (cases "dropWhile isspace raw") (auto simp: startswith_def)
    from strip_first [OF this] show ?thesis
      by (simp add: python_requirement_def startswith_def)
  qed
  have e: "\<exists>ls. open_lines world path = Inr ls \<and>
              map name_version rs = List.map_filter python_requirement ls"
    if "fst (analyze_python_requirements world self path) = Inr rs"
    using that analyze_python_records [of world self path rs]
    by (cases "analyze_python_requirements world self path") simp
  from a b c d e show ?thesis by blast
qed

theorem python_line_records_witness:
  "python_requirement [CHR 0x20, CHR 0x0A] = None
   \<and> python_requirement ''  # pinned'' = None
   \<and> (\<exists>ls. open_lines demo_world ''requirements.txt'' = Inr ls \<and>
         [(''flask'', ''2.0.1''), (''flask'', [])] = List.map_filter python_requirement ls)"
proof -
  have a: "list_all isspace [CHR 0x20, CHR 0x0A]" by (simp add: isspace_def)
  have b: "startswith (dropWhile isspace ''  # pinned'') ''#''"
    by (simp add: isspace_def startswith_def)
  have c: "fst (analyze_python_requirements demo_world init ''requirements.txt'') = Inr
     [\<lparr>name = ''flask'', size_bytes = 100000, is_paid = False, version = ''2.0.1'',
       description = ''A micro framework'', latest_version = ''3.0.0'', vulnerabilities = []\<rparr>,
      \<lparr>name = ''flask'', size_bytes = 100000, is_paid = False, version = [],
       description = ''A micro framework'', latest_version = ''3.0.0'', vulnerabilities = []\<rparr>]"
    by code_simp
  have "python_requirement [CHR 0x20, CHR 0x0A] = None"
    using a python_line_records [of "[CHR 0x20, CHR 0x0A]"] by blast
  moreover have "python_requirement ''  # pinned'' = None"
    using b python_line_records [of "''  # pinned''"] by blast
  moreover have "\<exists>ls. open_lines demo_world ''requirements.txt'' = Inr ls \<and>
         [(''flask'', ''2.0.1''), (''flask'', [])] = List.map_filter python_requirement ls"
    using python_line_records [of "[]" demo_world init "''requirements.txt''",
        THEN conjunct2, THEN conjunct2, THEN conjunct2, THEN conjunct2, rule_format, OF c]
    by (simp add: name_version_def)
  ultimately show ?thesis by blast
qed

text \<open>
  Claim C10. The pattern is anchored at the start of the line only. A line whose first
  non-blank character \<open>c\<close> is a name character gives a record: its name is the longest
  leading run of name characters of the stripped line, its version the run of name
  characters after the comparators that follow the name, if any, and whatever comes
  after is ignored. A line whose first non-blank character is not a name character gives
  none. So \<^verbatim>\<open>flask==2.0.1 trailing-junk\<close> gives flask with 2.0.1 and \<^verbatim>\<open>flask==\<close> gives
  flask with the empty version.
\<close>

theorem python_pattern_anchored_at_start:
  "(dropWhile isspace raw = c # r \<longrightarrow>
      python_requirement raw =
        (if name_char c
         then Some (takeWhile name_char (strip raw),
                    if takeWhile comparator_char (dropWhile name_char (strip raw)) = [] then []
                    else takeWhile name_char
                           (dropWhile comparator_char (dropWhile name_char (strip raw))))
         else None))
   \<and> python_requirement ''flask==2.0.1 trailing-junk'' = Some (''flask'', ''2.0.1'')
   \<and> python_requirement ''flask=='' = Some (''flask'', [])"
proof -
  have a: "python_requirement ''flask==2.0.1 trailing-junk'' = Some (''flask'', ''2.0.1'')"
    by code_simp
  have b: "python_requirement ''flask=='' = Some (''flask'', [])" by code_simp
  show ?thesis
    using a b strip_first [of raw c r] python_requirement_eq [of raw c] by blast
qed

theorem python_pattern_anchored_at_start_witness:
  "python_requirement ''  requests>=2.31 ; extra'' = Some (''requests'', ''2.31'')
   \<and> python_requirement '' @git+https'' = None"
proof -
  have a: "dropWhile isspace ''  requests>=2.31 ; extra'' = CHR ''r'' # ''equests>=2.31 ; extra''"
    by (simp add: isspace_def)
  have b: "dropWhile isspace '' @git+https'' = CHR ''@'' # ''git+https''"
    by (simp add: isspace_def)
  have c: "strip ''  requests>=2.31 ; extra'' = ''requests>=2.31 ; extra''" by code_simp
  show ?thesis
    using python_pattern_anchored_at_start [of "''  requests>=2.31 ; extra''" "CHR ''r''"
        "''equests>=2.31 ; extra''", THEN conjunct1, rule_format, OF a]
      python_pattern_anchored_at_start [of "'' @git+https''" "CHR ''@''"
        "''git+https''", THEN conjunct1, rule_format, OF b]
    unfolding c by (simp add: name_char_def in_range_def comparator_char_def)
qed

section \<open>The claims about errors\<close>

text \<open>
  Claim C1 says that resolving a requirement never raises. The registry lookups keep
  that promise, the security audit does not: where \<^verbatim>\<open>subprocess.run\<close> raises, the
  exception leaves the resolution and the whole analysis, and no package is returned.
\<close>

theorem audit_failure_escapes_resolution:
  "fst (resolve_python no_safety_world init ''flask'' ''2.0.1'') = Inl (FileNotFoundError ''safety'')
   \<and> fst (analyze_multiple_projects no_safety_world init [''requirements.txt''] ''python'')
       = Inl (FileNotFoundError ''safety'')"
  by code_simp

text \<open>
  The rest of the resolution cannot raise: when the audit tool runs, a record is produced
  whatever the registry answers.
\<close>

lemma resolve_python_returns_unless_audit_raises:
  assumes "\<And>log args. \<exists>out. subprocess_run world log args = Inr out"
  shows "\<exists>p. fst (resolve_python world self n v) = Inr p"
proof -
  obtain sz s1 where a: "get_pypi_package_size world self n = (sz, s1)" by force
  obtain d s2 where b: "get_pypi_package_description world s1 n = (d, s2)" by force
  obtain l s3 where c: "get_latest_pypi_version world s2 n = (l, s3)" by force
  obtain out where "subprocess_run world (requests_log s3)
      [''safety'', ''check'', ''--bare'', ''--dependency'', n] = Inr out"
    using assms by blast
  then show ?thesis
    using a b c
    by (simp add: resolve_python_def is_paid_package_def known_paid_services_def
        check_security_vulnerabilities_def)
qed

text \<open>
  Claim C2 says that a node manifest that does not decode fails with a parse error,
  distinct from a manifest without packages. In the code the decoder's error is caught:
  the call returns the empty list, as it does for a manifest that declares nothing.
\<close>

theorem malformed_manifest_counterexample:
  "open_json demo_world ''broken.json'' = Inr None
   \<and> analyze_requirements demo_world init ''broken.json'' ''node'' = (Inr [], init)
   \<and> analyze_requirements demo_world init ''empty.json'' ''node'' = (Inr [], init)"
  by (simp add: demo_world_def analyze_requirements_def analyze_node_requirements_def
      all_deps_of_def get_mapping_def dict_merge_def)

text \<open>
  Claim C2, amended. For a node manifest whose content the JSON decoder rejects with
  \<^verbatim>\<open>JSONDecodeError\<close>, the analysis does not fail: the error is caught, the call returns
  the empty sequence and leaves the analyzer as it was. That is also the result for every
  well-formed manifest that declares no packages, as one whose \<^verbatim>\<open>dependencies\<close> and
  \<^verbatim>\<open>devDependencies\<close> are absent or empty. Any other exception raised while the file is
  opened or read is not caught: it is surfaced to the caller.
\<close>

theorem malformed_manifest_yields_empty:
  "(open_json world path = Inr None \<longrightarrow>
      analyze_node_requirements world self path = (Inr [], self))
   \<and> (path_exists world path \<and> open_json world path = Inr None \<longrightarrow>
      analyze_requirements world self path ''node'' = (Inr [], self))
   \<and> (open_json world path = Inr (Some data) \<and> all_deps_of data = Inr [] \<longrightarrow>
      analyze_node_requirements world self path = (Inr [], self))
   \<and> (get_mapping data ''dependencies'' = Inr [] \<and> get_mapping data ''devDependencies'' = Inr []
        \<longrightarrow> all_deps_of data = Inr [])
   \<and> (open_json world path = Inl e \<longrightarrow>
      analyze_node_requirements world self path = (Inl e, self))
   \<and> (path_exists world path \<and> open_json world path = Inl e \<longrightarrow>
      analyze_requirements world self path ''node'' = (Inl e, self))"
  by (simp add: analyze_requirements_def analyze_node_requirements_def
      all_deps_of_def dict_merge_def)

theorem malformed_manifest_yields_empty_witness:
  "analyze_node_requirements demo_world init ''broken.json'' = (Inr [], init)
   \<and> analyze_requirements demo_world init ''broken.json'' ''node'' = (Inr [], init)
   \<and> analyze_node_requirements demo_world init ''empty.json'' = (Inr [], init)
   \<and> all_deps_of (JObject [(''name'', JString ''app''), (''dependencies'', JObject [])]) = Inr []
   \<and> analyze_node_requirements demo_world init ''absent.json''
       = (Inl (FileNotFoundError ''absent.json''), init)"
proof -
  let ?app = "JObject [(''name'', JString ''app''), (''dependencies'', JObject [])]"
  note T = malformed_manifest_yields_empty
  have a: "open_json demo_world ''broken.json'' = Inr None" by (simp add: demo_world_def)
  have b: "path_exists demo_world ''broken.json''" by (simp add: demo_world_def)
  have c: "open_json demo_world ''empty.json'' = Inr (Some (JObject []))"
    by (simp add: demo_world_def)
  have d: "all_deps_of (JObject []) = Inr []"
    by (simp add: all_deps_of_def get_mapping_def dict_merge_def)
  have g1: "get_mapping ?app ''dependencies'' = Inr []" by (simp add: get_mapping_def)
  have g2: "get_mapping ?app ''devDependencies'' = Inr []" by (simp add: get_mapping_def)
  have f: "open_json demo_world ''absent.json'' = Inl (FileNotFoundError ''absent.json'')"
    by (simp add: demo_world_def)
  have "analyze_node_requirements demo_world init ''broken.json'' = (Inr [], init)"
    by (rule T [THEN conjunct1, rule_format, OF a])
  moreover have "analyze_requirements demo_world init ''broken.json'' ''node'' = (Inr [], init)"
    by (rule T [THEN conjunct2, THEN conjunct1, rule_format, OF conjI, OF b a])
  moreover have "analyze_node_requirements demo_world init ''empty.json'' = (Inr [], init)"
    by (rule T [THEN conjunct2, THEN conjunct2, THEN conjunct1, rule_format, OF conjI, OF c d])
  moreover have "all_deps_of ?app = Inr []"
    by (rule T [THEN conjunct2, THEN conjunct2, THEN conjunct2, THEN conjunct1, rule_format,
          OF conjI, OF g1 g2])
  moreover have "analyze_node_requirements demo_world init ''absent.json''
       = (Inl (FileNotFoundError ''absent.json''), init)"
    by (rule T [THEN conjunct2, THEN conjunct2, THEN conjunct2, THEN conjunct2, THEN conjunct1,
          rule_format, OF f])
  ultimately show ?thesis by (intro conjI)
qed

text \<open>The paths of \<^verbatim>\<open>analyze_multiple_projects\<close> are handled in order, up to the first error.\<close>

lemma projects_loop_append:
  "projects_loop world (pre @ rest) t self acc =
     (case projects_loop world pre t self acc of
        (Inl e, s) \<Rightarrow> (Inl e, s)
      | (Inr acc', s) \<Rightarrow> projects_loop world rest t s acc')"
  by (induction pre arbitrary: self acc) (auto split: prod.splits sum.splits)

lemma analyze_requirements_missing:
  "\<not> path_exists world p \<Longrightarrow>
     analyze_requirements world self p t = (Inl (FileNotFoundError (''File not found: '' @ p)), self)"
  by (simp add: analyze_requirements_def)

lemma projects_loop_missing:
  assumes "\<not> path_exists world p"
  shows "\<exists>e. fst (projects_loop world (pre @ p # rest) t self acc) = Inl e"
proof (cases "projects_loop world pre t self acc")
  case (Pair r s)
  then show ?thesis
    using assms
    by (cases r) (simp_all add: projects_loop_append analyze_requirements_missing)
qed

text \<open>
  Claim C8 says that the analysis fails with the missing-manifest error when any path
  does not exist and with the unsupported-ecosystem error when the tag is neither python
  nor node. With no path at all an unsupported tag is no error; with an existing path
  before a missing one the unsupported tag is reported, not the missing path; and for a
  missing path the unsupported tag is never looked at.
\<close>

theorem analyze_errors_counterexample:
  "analyze_multiple_projects demo_world init [] ''ruby'' = (Inr [], init)
   \<and> fst (analyze_multiple_projects demo_world init [''requirements.txt'', ''missing.txt''] ''ruby'')
       = Inl ValueError
   \<and> fst (analyze_requirements demo_world init ''missing.txt'' ''ruby'')
       = Inl (FileNotFoundError ''File not found: missing.txt'')"
  by (simp add: analyze_multiple_projects_def analyze_requirements_def demo_world_def)

text \<open>
  Claim C8, amended. \<^verbatim>\<open>analyze_requirements\<close> fails with the missing-manifest error when
  its path does not exist, whatever the tag, and with the unsupported-ecosystem error
  when the path exists and the tag is neither python nor node; neither is swallowed.
  \<^verbatim>\<open>analyze_multiple_projects\<close> handles its paths in order and stops at the first error:
  when some path is missing it returns no packages; when the paths before a missing one
  were analysed without error it fails with the missing-manifest error of that path;
  with a tag that is neither python nor node it fails at its first path, with the error
  of that path; with no paths it returns the empty list.
\<close>

theorem analyze_errors_surface:
  "(\<not> path_exists world p \<longrightarrow>
      analyze_requirements world self p t
        = (Inl (FileNotFoundError (''File not found: '' @ p)), self))
   \<and> (path_exists world p \<and> t \<noteq> ''python'' \<and> t \<noteq> ''node'' \<longrightarrow>
      analyze_requirements world self p t = (Inl ValueError, self))
   \<and> ((\<exists>q \<in> set ps. \<not> path_exists world q) \<longrightarrow>
      (\<exists>e. fst (analyze_multiple_projects world self ps t) = Inl e))
   \<and> (fst (analyze_multiple_projects world self pre t) = Inr acc \<and> \<not> path_exists world p \<longrightarrow>
      fst (analyze_multiple_projects world self (pre @ p # rest) t)
        = Inl (FileNotFoundError (''File not found: '' @ p)))
   \<and> (ps \<noteq> [] \<and> t \<noteq> ''python'' \<and> t \<noteq> ''node'' \<longrightarrow>
      analyze_multiple_projects world self ps t
        = (Inl (if path_exists world (hd ps) then ValueError
                else FileNotFoundError (''File not found: '' @ hd ps)), self))
   \<and> analyze_multiple_projects world self [] t = (Inr [], self)"
proof -
  have a: "analyze_requirements world self p t
        = (Inl (FileNotFoundError (''File not found: '' @ p)), self)"
    if "\<not> path_exists world p"
    using that by (rule analyze_requirements_missing)
  have b: "analyze_requirements world self p t = (Inl ValueError, self)"
    if "path_exists world p \<and> t \<noteq> ''python'' \<and> t \<noteq> ''node''"
    using that by (simp add: analyze_requirements_def)
  have c: "\<exists>e. fst (analyze_multiple_projects world self ps t) = Inl e"
    if "\<exists>q \<in> set ps. \<not> path_exists world q"
  proof -
    from that obtain q where "q \<in> set ps" and q: "\<not> path_exists world q" by blast
    then obtain ys zs where "ps = ys @ q # zs" by (meson split_list)
    then show ?thesis
      using projects_loop_missing [OF q] by (simp add: analyze_multiple_projects_def)
  qed
  have d: "fst (analyze_multiple_projects world self (pre @ p # rest) t)
        = Inl (FileNotFoundError (''File not found: '' @ p))"
    if "fst (analyze_multiple_projects world self pre t) = Inr acc \<and> \<not> path_exists world p"
  proof (cases "projects_loop world pre t self []")
    case (Pair r s)
    then show ?thesis
      using that
      by (simp add: analyze_multiple_projects_def projects_loop_append
          analyze_requirements_missing)
  qed
  have e: "analyze_multiple_projects world self ps t
        = (Inl (if path_exists world (hd ps) then ValueError
                else FileNotFoundError (''File not found: '' @ hd ps)), self)"
    if "ps \<noteq> [] \<and> t \<noteq> ''python'' \<and> t \<noteq> ''node''"
    using that
    by (cases ps) (simp_all add: analyze_multiple_projects_def analyze_requirements_def)
  have f: "analyze_multiple_projects world self [] t = (Inr [], self)"
    by (simp add: analyze_multiple_projects_def)
  show ?thesis
    apply (intro conjI impI)
         apply (erule a)
        apply (erule b)
       apply (erule c)
      apply (erule d)
     apply (erule e)
    apply (rule f)
    done
qed

theorem analyze_errors_surface_witness:
  "fst (analyze_requirements demo_world init ''missing.txt'' ''python'')
       = Inl (FileNotFoundError ''File not found: missing.txt'')
   \<and> fst (analyze_requirements demo_world init ''requirements.txt'' ''ruby'') = Inl ValueError
   \<and> (\<exists>e. fst (analyze_multiple_projects demo_world init
               [''requirements.txt'', ''missing.txt''] ''python'') = Inl e)
   \<and> fst (analyze_multiple_projects demo_world init
               ([''requirements.txt''] @ ''missing.txt'' # [''package.json'']) ''python'')
       = Inl (FileNotFoundError ''File not found: missing.txt'')
   \<and> fst (analyze_multiple_projects demo_world init [''requirements.txt''] ''ruby'') = Inl ValueError"
proof -
  have m: "\<not> path_exists demo_world ''missing.txt''" by (simp add: demo_world_def)
  have r: "path_exists demo_world ''requirements.txt''" by (simp add: demo_world_def)
  have q: "\<exists>q \<in> set [''requirements.txt'', ''missing.txt'']. \<not> path_exists demo_world q"
    using m by simp
  have pre: "fst (analyze_multiple_projects demo_world init [''requirements.txt''] ''python'') = Inr
     [\<lparr>name = ''flask'', size_bytes = 100000, is_paid = False, version = ''2.0.1'',
       description = ''A micro framework'', latest_version = ''3.0.0'', vulnerabilities = []\<rparr>,
      \<lparr>name = ''flask'', size_bytes = 100000, is_paid = False, version = [],
       description = ''A micro framework'', latest_version = ''3.0.0'', vulnerabilities = []\<rparr>]"
    by code_simp
  have t: "''ruby'' \<noteq> ''python'' \<and> ''ruby'' \<noteq> ''node''" by simp
  note T1 = analyze_errors_surface [THEN conjunct1, rule_format]
  note T2 = analyze_errors_surface [THEN conjunct2, THEN conjunct1, rule_format]
  note T3 = analyze_errors_surface [THEN conjunct2, THEN conjunct2, THEN conjunct1, rule_format]
  note T4 = analyze_errors_surface [THEN conjunct2, THEN conjunct2, THEN conjunct2,
      THEN conjunct1, rule_format]
  note T5 = analyze_errors_surface [THEN conjunct2, THEN conjunct2, THEN conjunct2,
      THEN conjunct2, THEN conjunct1, rule_format]
  have "fst (analyze_requirements demo_world init ''missing.txt'' ''python'')
       = Inl (FileNotFoundError ''File not found: missing.txt'')"
    using T1 [of demo_world "''missing.txt''" init "''python''", OF m] by simp
  moreover have "fst (analyze_requirements demo_world init ''requirements.txt'' ''ruby'') = Inl ValueError"
    using T2 [of demo_world "''requirements.txt''" "''ruby''" init] r t by simp
  moreover have "\<exists>e. fst (analyze_multiple_projects demo_world init
               [''requirements.txt'', ''missing.txt''] ''python'') = Inl e"
    using T3 [of "[''requirements.txt'', ''missing.txt'']" demo_world init "''python''", OF q] .
  moreover have "fst (analyze_multiple_projects demo_world init
               ([''requirements.txt''] @ ''missing.txt'' # [''package.json'']) ''python'')
       = Inl (FileNotFoundError ''File not found: missing.txt'')"
    using T4 [of demo_world init "[''requirements.txt'']" "''python''" _ "''missing.txt''"
        "[''package.json'']", OF conjI, OF pre m] by simp
  moreover have "fst (analyze_multiple_projects demo_world init [''requirements.txt''] ''ruby'') = Inl ValueError"
    using T5 [of "[''requirements.txt'']" "''ruby''" demo_world init] r t by simp
  ultimately show ?thesis by (intro conjI)
qed

section \<open>The records of a node manifest\<close>

lemma map_of_dict_set: "map_of (dict_set d k v) = (map_of d)(k \<mapsto> v)"
  by (induction d) (auto simp: fun_upd_twist)

lemma dict_set_fresh: "k \<notin> set (map fst d) \<Longrightarrow> dict_set d k v = d @ [(k, v)]"
  by (induction d) auto

lemma keys_dict_set_present: "k \<in> set (map fst d) \<Longrightarrow> map fst (dict_set d k v) = map fst d"
proof (induction d)
  case Nil
  then show ?case by simp
next
  case (Cons x d)
  obtain k' v' where x: "x = (k', v')" by (cases x)
  show ?case
  proof (cases "k' = k")
    case True
    then show ?thesis using x by simp
  next
    case False
    then have "k \<in> set (map fst d)" using Cons.prems x by auto
    from Cons.IH [OF this] show ?thesis using False x by simp
  qed
qed

lemma keys_dict_set:
  "map fst (dict_set d k v) = (if k \<in> set (map fst d) then map fst d else map fst d @ [k])"
  using keys_dict_set_present [of k d v] dict_set_fresh [of k d v] by auto

lemma distinct_dict_set: "distinct (map fst d) \<Longrightarrow> distinct (map fst (dict_set d k v))"
  by (simp add: keys_dict_set)

lemma foldl_dict_set_fresh:
  "distinct (map fst xs) \<Longrightarrow> set (map fst d) \<inter> set (map fst xs) = {} \<Longrightarrow>
     foldl (\<lambda>d (k, v). dict_set d k v) d xs = d @ xs"
proof (induction xs arbitrary: d)
  case Nil
  then show ?case by simp
next
  case (Cons x xs)
  obtain k v where x: "x = (k, v)" by (cases x)
  have "dict_set d k v = d @ [(k, v)]" using Cons.prems x by (simp add: dict_set_fresh)
  moreover have "foldl (\<lambda>d (k, v). dict_set d k v) (d @ [(k, v)]) xs = (d @ [(k, v)]) @ xs"
    using Cons.prems x by (intro Cons.IH) auto
  ultimately show ?case using x by simp
qed

lemma foldl_dict_set:
  "distinct (map fst xs) \<Longrightarrow>
     map_of (foldl (\<lambda>d (k, v). dict_set d k v) d xs) = map_of d ++ map_of xs
     \<and> map fst (foldl (\<lambda>d (k, v). dict_set d k v) d xs)
         = map fst d @ filter (\<lambda>k. k \<notin> set (map fst d)) (map fst xs)"
proof (induction xs arbitrary: d)
  case Nil
  then show ?case by simp
next
  case (Cons x xs)
  obtain k v where x: "x = (k, v)" by (cases x)
  from Cons.prems x have fresh: "k \<notin> set (map fst xs)" and dist: "distinct (map fst xs)"
    by auto
  note IH = Cons.IH [OF dist, of "dict_set d k v"]
  have none: "map_of xs k = None" using fresh by (simp add: map_of_eq_None_iff)
  have m: "map_of (dict_set d k v) ++ map_of xs = map_of d ++ map_of (x # xs)"
    unfolding x by (rule ext) (simp add: map_of_dict_set map_add_def none split: option.splits)
  have keys: "map fst (dict_set d k v) @
        filter (\<lambda>k'. k' \<notin> set (map fst (dict_set d k v))) (map fst xs)
      = map fst d @ filter (\<lambda>k'. k' \<notin> set (map fst d)) (map fst (x # xs))"
  proof (cases "k \<in> set (map fst d)")
    case True
    then show ?thesis using x by (simp add: keys_dict_set)
  next
    case False
    have "filter (\<lambda>k'. k' \<noteq> k \<and> k' \<notin> set (map fst d)) (map fst xs)
        = filter (\<lambda>k'. k' \<notin> set (map fst d)) (map fst xs)"
      using fresh by (intro filter_cong) auto
    then show ?thesis using False x by (simp add: keys_dict_set)
  qed
  let ?F = "\<lambda>d (k, v). dict_set d k v"
  have step: "foldl ?F d (x # xs) = foldl ?F (dict_set d k v) xs" using x by simp
  from IH have 1: "map_of (foldl ?F (dict_set d k v) xs) = map_of (dict_set d k v) ++ map_of xs"
    and 2: "map fst (foldl ?F (dict_set d k v) xs) = map fst (dict_set d k v) @
        filter (\<lambda>k'. k' \<notin> set (map fst (dict_set d k v))) (map fst xs)"
    by blast+
  have "map_of (foldl ?F d (x # xs)) = map_of d ++ map_of (x # xs)"
    unfolding step 1 m ..
  moreover have "map fst (foldl ?F d (x # xs))
      = map fst d @ filter (\<lambda>k. k \<notin> set (map fst d)) (map fst (x # xs))"
    unfolding step 2 keys ..
  ultimately show ?case by (rule conjI)
qed

lemma distinct_foldl_dict_set:
  "distinct (map fst d) \<Longrightarrow> distinct (map fst (foldl (\<lambda>d (k, v). dict_set d k v) d xs))"
  by (induction xs arbitrary: d) (auto simp: distinct_dict_set)

lemma dict_merge_distinct:
  assumes "distinct (map fst a)" and "distinct (map fst b)"
  shows "distinct (map fst (dict_merge a b))"
    and "map_of (dict_merge a b) = map_of a ++ map_of b"
    and "map fst (dict_merge a b) = map fst a @ filter (\<lambda>k. k \<notin> set (map fst a)) (map fst b)"
proof -
  have a: "foldl (\<lambda>d (k, v). dict_set d k v) [] a = a"
    using foldl_dict_set_fresh [OF assms(1), of "[]"] by simp
  then have m: "dict_merge a b = foldl (\<lambda>d (k, v). dict_set d k v) a b"
    by (simp add: dict_merge_def)
  show "distinct (map fst (dict_merge a b))"
    unfolding m using assms(1) by (rule distinct_foldl_dict_set)
  show "map_of (dict_merge a b) = map_of a ++ map_of b"
    unfolding m using foldl_dict_set [OF assms(2)] by blast
  show "map fst (dict_merge a b) = map fst a @ filter (\<lambda>k. k \<notin> set (map fst a)) (map fst b)"
    unfolding m using foldl_dict_set [OF assms(2)] by blast
qed

lemma clean_version_prefix:
  "\<exists>p. v = p @ clean_version v \<and> list_all (\<lambda>c. \<not> digit_char c) p
       \<and> (clean_version v = [] \<or> digit_char (hd (clean_version v)))"
proof -
  let ?p = "takeWhile (\<lambda>c. \<not> digit_char c) v"
  have c: "clean_version v = dropWhile (\<lambda>c. \<not> digit_char c) v"
    by (simp add: clean_version_def dropWhile_eq_drop)
  have "v = ?p @ clean_version v" by (simp add: c)
  moreover have "list_all (\<lambda>c. \<not> digit_char c) ?p"
    by (auto simp: list_all_iff dest: set_takeWhileD)
  moreover have "clean_version v = [] \<or> digit_char (hd (clean_version v))"
    unfolding c using hd_dropWhile [of "\<lambda>c. \<not> digit_char c" v] by blast
  ultimately show ?thesis by blast
qed

lemma node_loop_records:
  "fst (node_loop world items self acc) = Inr rs \<Longrightarrow>
     \<exists>decl. items = map (\<lambda>(k, ver). (k, JString ver)) decl \<and>
            map name_version rs =
              map name_version acc @ map (\<lambda>(k, ver). (k, clean_version ver)) decl"
proof (induction items arbitrary: self acc)
  case Nil
  then show ?case by simp
next
  case (Cons item items)
  obtain k j where item: "item = (k, j)" by (cases item)
  from Cons.prems item obtain ver where j: "j = JString ver"
    by (cases j) simp_all
  obtain r s1 where res: "resolve_node world self k (clean_version ver) = (r, s1)"
    by (cases "resolve_node world self k (clean_version ver)")
  from Cons.prems item j res obtain p where r: "r = Inr p"
    by (cases r) simp_all
  have "fst (node_loop world items s1 (acc @ [p])) = Inr rs"
    using Cons.prems item j res r by simp
  from Cons.IH [OF this] obtain decl where
    d: "items = map (\<lambda>(k, ver). (k, JString ver)) decl"
    and m: "map name_version rs =
        map name_version (acc @ [p]) @ map (\<lambda>(k, ver). (k, clean_version ver)) decl"
    by blast
  have nv: "name_version p = (k, clean_version ver)"
    using resolve_node_name_version res r by (simp add: name_version_def)
  have A: "item # items = map (\<lambda>(k, ver). (k, JString ver)) ((k, ver) # decl)"
    using d item j by simp
  have B: "map name_version rs =
      map name_version acc @ map (\<lambda>(k, ver). (k, clean_version ver)) ((k, ver) # decl)"
    using m nv by simp
  show ?case by (rule exI [of _ "(k, ver) # decl"]) (rule conjI [OF A B])
qed

lemma analyze_node_records:
  assumes "open_json world path = Inr (Some data)"
    and "fst (analyze_node_requirements world self path) = Inr rs"
  shows "\<exists>decl. all_deps_of data = Inr (map (\<lambda>(k, ver). (k, JString ver)) decl) \<and>
            map name_version rs = map (\<lambda>(k, ver). (k, clean_version ver)) decl"
proof (cases "all_deps_of data")
  case (Inl e)
  then show ?thesis using assms by (simp add: analyze_node_requirements_def)
next
  case (Inr items)
  then have "fst (node_loop world items self []) = Inr rs"
    using assms by (simp add: analyze_node_requirements_def)
  from node_loop_records [OF this] Inr show ?thesis by auto
qed

text \<open>
  Claim C6. For a node manifest whose \<^verbatim>\<open>dependencies\<close> and \<^verbatim>\<open>devDependencies\<close> are
  mappings (an absent one counts as empty), the two are merged into one sequence with
  one item per name: the names of \<^verbatim>\<open>dependencies\<close> in their order, then the new names of
  \<^verbatim>\<open>devDependencies\<close>, and for a name in both the value of \<^verbatim>\<open>devDependencies\<close>. The
  records returned carry, in that order, each name with its version string without its
  longest prefix of characters that are not digits. For dependencies a: ^1.0.0 and
  devDependencies a: 2.0.0 the result is the single record a with version 2.0.0.
\<close>

theorem node_dependencies_merged:
  "(get_mapping data ''dependencies'' = Inr deps \<and> get_mapping data ''devDependencies'' = Inr dev
      \<and> distinct (map fst deps) \<and> distinct (map fst dev) \<longrightarrow>
      (\<exists>items. all_deps_of data = Inr items \<and> distinct (map fst items)
         \<and> map_of items = map_of deps ++ map_of dev
         \<and> map fst items = map fst deps @ filter (\<lambda>k. k \<notin> set (map fst deps)) (map fst dev)))
   \<and> (open_json world path = Inr (Some data)
        \<and> fst (analyze_node_requirements world self path) = Inr rs \<longrightarrow>
      (\<exists>decl. all_deps_of data = Inr (map (\<lambda>(k, ver). (k, JString ver)) decl) \<and>
            map name_version rs = map (\<lambda>(k, ver). (k, clean_version ver)) decl))
   \<and> (\<exists>p. v = p @ clean_version v \<and> list_all (\<lambda>c. \<not> digit_char c) p
          \<and> (clean_version v = [] \<or> digit_char (hd (clean_version v))))
   \<and> fst (analyze_node_requirements demo_world init ''package.json'') = Inr
        [\<lparr>name = ''a'', size_bytes = 5000, is_paid = False, version = ''2.0.0'',
          description = ''A module'', latest_version = ''2.1.0'', vulnerabilities = []\<rparr>]"
proof -
  have a: "\<exists>items. all_deps_of data = Inr items \<and> distinct (map fst items)
         \<and> map_of items = map_of deps ++ map_of dev
         \<and> map fst items = map fst deps @ filter (\<lambda>k. k \<notin> set (map fst deps)) (map fst dev)"
    if "get_mapping data ''dependencies'' = Inr deps
        \<and> get_mapping data ''devDependencies'' = Inr dev
        \<and> distinct (map fst deps) \<and> distinct (map fst dev)"
    using that dict_merge_distinct [of deps dev] by (simp add: all_deps_of_def)
  have b: "\<exists>decl. all_deps_of data = Inr (map (\<lambda>(k, ver). (k, JString ver)) decl) \<and>
            map name_version rs = map (\<lambda>(k, ver). (k, clean_version ver)) decl"
    if "open_json world path = Inr (Some data)
        \<and> fst (analyze_node_requirements world self path) = Inr rs"
    using that analyze_node_records by blast
  have c: "fst (analyze_node_requirements demo_world init ''package.json'') = Inr
        [\<lparr>name = ''a'', size_bytes = 5000, is_paid = False, version = ''2.0.0'',
          description = ''A module'', latest_version = ''2.1.0'', vulnerabilities = []\<rparr>]"
    by code_simp
  show ?thesis
    apply (intro conjI impI)
       apply (erule a)
      apply (erule b)
     apply (rule clean_version_prefix)
    apply (rule c)
    done
qed

theorem node_dependencies_merged_witness:
  "(\<exists>items. all_deps_of demo_manifest = Inr items \<and> distinct (map fst items)
         \<and> map_of items = map_of [(''a'', JString ''^1.0.0'')] ++ map_of [(''a'', JString ''2.0.0'')]
         \<and> map fst items = map fst [(''a'', JString ''^1.0.0'')] @
              filter (\<lambda>k. k \<notin> set (map fst [(''a'', JString ''^1.0.0'')]))
                (map fst [(''a'', JString ''2.0.0'')]))
   \<and> (\<exists>decl. all_deps_of demo_manifest = Inr (map (\<lambda>(k, ver). (k, JString ver)) decl) \<and>
            [(''a'', ''2.0.0'')] = map (\<lambda>(k, ver). (k, clean_version ver)) decl)"
proof -
  have deps: "get_mapping demo_manifest ''dependencies'' = Inr [(''a'', JString ''^1.0.0'')]"
    by (simp add: get_mapping_def demo_manifest_def)
  have dev: "get_mapping demo_manifest ''devDependencies'' = Inr [(''a'', JString ''2.0.0'')]"
    by (simp add: get_mapping_def demo_manifest_def)
  have d1: "distinct (map fst [(''a'', JString ''^1.0.0'')])" by simp
  have d2: "distinct (map fst [(''a'', JString ''2.0.0'')])" by simp
  have o: "open_json demo_world ''package.json'' = Inr (Some demo_manifest)"
    by (simp add: demo_world_def)
  have r: "fst (analyze_node_requirements demo_world init ''package.json'') = Inr
        [\<lparr>name = ''a'', size_bytes = 5000, is_paid = False, version = ''2.0.0'',
          description = ''A module'', latest_version = ''2.1.0'', vulnerabilities = []\<rparr>]"
    by code_simp
  note T1 = node_dependencies_merged [THEN conjunct1, rule_format]
  note T2 = node_dependencies_merged [THEN conjunct2, THEN conjunct1, rule_format]
  have A: "\<exists>items. all_deps_of demo_manifest = Inr items \<and> distinct (map fst items)
         \<and> map_of items = map_of [(''a'', JString ''^1.0.0'')] ++ map_of [(''a'', JString ''2.0.0'')]
         \<and> map fst items = map fst [(''a'', JString ''^1.0.0'')] @
              filter (\<lambda>k. k \<notin> set (map fst [(''a'', JString ''^1.0.0'')]))
                (map fst [(''a'', JString ''2.0.0'')])"
    by (rule T1) (intro conjI deps dev d1 d2)
  have B: "\<exists>decl. all_deps_of demo_manifest = Inr (map (\<lambda>(k, ver). (k, JString ver)) decl) \<and>
            [(''a'', ''2.0.0'')] = map (\<lambda>(k, ver). (k, clean_version ver)) decl"
    using T2 [OF conjI, OF o r] by (simp add: name_version_def)
  from A B show ?thesis by (rule conjI)
qed

section \<open>The size caches\<close>







































section \<open>The image size estimate: rounding to 53 bits\<close>

lemma bit_length_le: "n < 2 ^ w \<Longrightarrow> bit_length n \<le> w"
  by (simp add: bit_length_def floorlog_leI)

lemma bit_length_upper: "n < 2 ^ bit_length n"
  by (cases "n = 0") (simp_all add: bit_length_def floorlog_bounds)

lemma bit_length_lower: "0 < n \<Longrightarrow> 2 ^ (bit_length n - 1) \<le> n"
  using floorlog_bounds [of n 2] by (simp add: bit_length_def)

lemma round53_exact: "n < 2 ^ 53 \<Longrightarrow> round53 n = n"
  using bit_length_le [of n 53] by (simp add: round53_def)

text \<open>The two candidates of the rounding, when bits are lost.\<close>

lemma round53_candidates:
  assumes "0 < bit_length n - 53"
  shows "round53 n = (n div 2 ^ (bit_length n - 53)) * 2 ^ (bit_length n - 53)
       \<or> round53 n = (n div 2 ^ (bit_length n - 53) + 1) * 2 ^ (bit_length n - 53)
          \<and> 2 ^ (bit_length n - 53 - 1) \<le> n mod 2 ^ (bit_length n - 53)"
  using assms by (auto simp: round53_def Let_def)

lemma round53_lower:
  assumes "c * 2 ^ j \<le> n" and "bit_length n \<le> 53 + j"
  shows "c * 2 ^ j \<le> round53 n"
proof (cases "bit_length n - 53 = 0")
  case True
  then show ?thesis using assms by (simp add: round53_def)
next
  case False
  define s where "s = bit_length n - 53"
  have s: "0 < s" "s \<le> j" using False assms(2) by (simp_all add: s_def)
  have e: "c * 2 ^ j = (c * 2 ^ (j - s)) * 2 ^ s"
    using s by (simp add: power_add [symmetric])
  have "(c * 2 ^ (j - s)) * 2 ^ s \<le> n" using assms(1) unfolding e .
  then have "c * 2 ^ (j - s) \<le> n div 2 ^ s"
    by (simp add: less_eq_div_iff_mult_less_eq)
  then have "(c * 2 ^ (j - s)) * 2 ^ s \<le> (n div 2 ^ s) * 2 ^ s"
    by (rule mult_le_mono1)
  then have low: "c * 2 ^ j \<le> (n div 2 ^ s) * 2 ^ s"
    unfolding e .
  have "(n div 2 ^ s) * 2 ^ s \<le> round53 n"
    using round53_candidates [of n] s(1) unfolding s_def by auto
  then show ?thesis using low by linarith
qed

lemma round53_upper: "round53 n \<le> n + 2 ^ (bit_length n - 54)"
proof (cases "bit_length n - 53 = 0")
  case True
  then show ?thesis by (simp add: round53_def)
next
  case False
  define s where "s = bit_length n - 53"
  have s: "0 < s" using False by (simp add: s_def)
  have h: "bit_length n - 54 = s - 1" by (simp add: s_def)
  have two: "(2::nat) ^ s = 2 * 2 ^ (s - 1)"
    using s by (cases s) simp_all
  have n: "n = (n div 2 ^ s) * 2 ^ s + n mod 2 ^ s"
    by (rule div_mult_mod_eq [symmetric])
  from round53_candidates [of n] s
  consider "round53 n = (n div 2 ^ s) * 2 ^ s"
    | "round53 n = (n div 2 ^ s + 1) * 2 ^ s" "2 ^ (s - 1) \<le> n mod 2 ^ s"
    unfolding s_def by blast
  then show ?thesis
  proof cases
    case 1
    then show ?thesis using n by linarith
  next
    case 2
    have "(n div 2 ^ s + 1) * 2 ^ s = (n div 2 ^ s) * 2 ^ s + 2 ^ s" by simp
    then show ?thesis using 2 n two unfolding h by linarith
  qed
qed

lemma round53_up_to_multiple:
  assumes s: "0 < bit_length n - 53"
    and m: "n + d = c * 2 ^ (bit_length n - 53)"
    and d: "0 < d" "2 * d < 2 ^ (bit_length n - 53)"
  shows "round53 n = n + d"
proof -
  define s where "s = bit_length n - 53"
  have sp: "0 < s" using s by (simp add: s_def)
  have two: "(2::nat) ^ s = 2 * 2 ^ (s - 1)"
    using sp by (cases s) simp_all
  have c: "0 < c" using m d by (cases c) simp_all
  have dlt: "d < 2 ^ s" using d unfolding s_def by linarith
  have "n = c * 2 ^ s - d" using m unfolding s_def by linarith
  also have "c * 2 ^ s = (c - 1) * 2 ^ s + 2 ^ s"
    using c by (cases c) simp_all
  finally have n: "n = (c - 1) * 2 ^ s + (2 ^ s - d)" using dlt by simp
  have r: "2 ^ s - d < (2::nat) ^ s" using d(1) dlt by simp
  have q: "n div 2 ^ s = c - 1"
    by (subst n) (simp add: r)
  have rm: "n mod 2 ^ s = 2 ^ s - d"
    by (subst n) (simp add: r)
  have big: "(2::nat) ^ (s - 1) < 2 ^ s - d"
    using d(2) two unfolding s_def [symmetric] by linarith
  have "round53 n = (c - 1 + 1) * 2 ^ s"
    using sp big unfolding round53_def s_def [symmetric] Let_def q rm by simp
  also have "\<dots> = c * 2 ^ s" using c by simp
  finally show ?thesis using m unfolding s_def by simp
qed

lemma round53_le_power: "round53 n \<le> 2 ^ bit_length n"
proof (cases "bit_length n - 53 = 0")
  case True
  then show ?thesis using bit_length_upper [of n] by (simp add: round53_def)
next
  case False
  define s where "s = bit_length n - 53"
  have s: "0 < s" using False by (simp add: s_def)
  have b: "bit_length n = 53 + s" using False by (simp add: s_def)
  have "n < 2 ^ 53 * 2 ^ s" using bit_length_upper [of n] unfolding b power_add .
  then have "n div 2 ^ s < 2 ^ 53"
    by (simp add: less_mult_imp_div_less)
  then have "n div 2 ^ s + 1 \<le> 2 ^ 53" by simp
  then have "(n div 2 ^ s + 1) * 2 ^ s \<le> 2 ^ 53 * 2 ^ s" by (rule mult_le_mono1)
  moreover have "round53 n \<le> (n div 2 ^ s + 1) * 2 ^ s"
    using round53_candidates [of n] s unfolding s_def by auto
  ultimately show ?thesis unfolding b power_add by linarith
qed

text \<open>
  Below \<open>2 ^ 51\<close> bytes the overhead computed in binary64 is the exact floor of 15 percent:
  the error of the constant and the rounding of the product stay below one twentieth.
\<close>

lemma bit_length_ge: "2 ^ w \<le> n \<Longrightarrow> Suc w \<le> bit_length n"
  by (simp add: bit_length_def floorlog_ge_SucI)

lemma overhead_nat:
  assumes t: "t < 2 ^ 51"
  shows "round53 (t * 5404319552844595) div 2 ^ 55 = 3 * t div 20"
proof -
  define n where "n = t * 5404319552844595"
  define K where "K = 3 * t div 20"
  define \<rho> where "\<rho> = 3 * t mod 20"
  have t': "t < 2251799813685248" using t by simp
  have A: "20 * n + 4 * t = 3 * t * 36028797018963968" by (simp add: n_def)
  have B: "3 * t = 20 * K + \<rho>" and \<rho>: "\<rho> < 20" by (simp_all add: K_def \<rho>_def)
  have AB: "20 * n + 4 * t = 720575940379279360 * K + 36028797018963968 * \<rho>"
    using A B by simp
  have "n < 2251799813685248 * 5404319552844595"
    unfolding n_def using t' by (cases "t") simp_all
  then have "n < 2 ^ 104" by simp
  then have bl: "bit_length n \<le> 104" by (rule bit_length_le)
  have p55: "(2::nat) ^ 55 = 36028797018963968" by simp
  have goal: "round53 n div 2 ^ 55 = K"
  proof (cases "\<rho> = 0")
    case False
    have low: "K * 2 ^ 55 \<le> n" unfolding p55 using AB False t' by linarith
    have "K * 2 ^ 55 \<le> round53 n" using low bl by (intro round53_lower) simp_all
    then have 1: "K * 36028797018963968 \<le> round53 n" by simp
    have "(2::nat) ^ (bit_length n - 54) \<le> 2 ^ 50"
      using bl by (intro power_increasing) simp_all
    then have "round53 n \<le> n + 1125899906842624"
      using round53_upper [of n] by simp
    then have "round53 n < 36028797018963968 * K + 36028797018963968"
      using AB \<rho> by linarith
    then have 2: "round53 n < (K + 1) * 36028797018963968" by simp
    from 1 2 show ?thesis unfolding p55
      by (intro div_nat_eqI) (simp_all add: mult.commute)
  next
    case True
    show ?thesis
    proof (cases "t = 0")
      case True
      then show ?thesis by (simp add: n_def K_def round53_exact)
    next
      case tpos: False
      define d where "d = t div 5"
      have "3 * t mod 20 = 0" using True by (simp add: \<rho>_def)
      then have "t mod 5 = 0" by presburger
      then have td: "t = 5 * d" unfolding d_def by presburger
      have dpos: "0 < d" using tpos td by simp
      have nd: "n + d = K * 36028797018963968" using AB True td by simp
      have n5: "n = d * 27021597764222975" by (simp add: n_def td)
      have "2 ^ 53 \<le> n" unfolding n5 using dpos by (cases d) simp_all
      then have "54 \<le> bit_length n" using bit_length_ge [of 53 n] by simp
      define s where "s = bit_length n - 53"
      have s: "0 < s" "s \<le> 51" "bit_length n = 53 + s"
        using \<open>54 \<le> bit_length n\<close> bl by (simp_all add: s_def)
      have nlt: "n < 9007199254740992 * 2 ^ s"
        using bit_length_upper [of n] unfolding s(3) power_add by simp
      have small: "2 * d < 2 ^ s"
      proof (rule ccontr)
        assume "\<not> 2 * d < 2 ^ s"
        then have "2 ^ s \<le> 2 * d" by simp
        then have "2 ^ s * 9007199254740992 \<le> 2 * d * 9007199254740992"
          by (rule mult_le_mono1)
        then show False using nlt n5 by simp
      qed
      have "K * 2 ^ 55 = (K * 2 ^ (55 - s)) * 2 ^ s"
        using s(2) by (simp add: power_add [symmetric])
      then have m: "n + d = (K * 2 ^ (55 - s)) * 2 ^ (bit_length n - 53)"
        using nd unfolding s_def by simp
      have "round53 n = n + d"
        using s(1) m dpos small unfolding s_def by (rule round53_up_to_multiple)
      then show ?thesis using nd by simp
    qed
  qed
  then show ?thesis by (simp add: n_def K_def)
qed

lemma floor_15_percent: "\<lfloor>(15 / 100 :: rat) * of_int T\<rfloor> = 3 * T div 20"
proof -
  have "(15 / 100 :: rat) * of_int T = of_int (3 * T) / of_int 20" by simp
  then show ?thesis by (simp only: floor_divide_of_int_eq)
qed

lemma int_of_float_nonneg: "0 \<le> x \<Longrightarrow> int_of_float x = x div 2 ^ 55"
  by (cases "x = 0") (simp_all add: int_of_float_def)

lemma overhead_exact:
  assumes "0 \<le> T" and "T < 2 ^ 51"
  shows "overhead_of T = Inr (3 * T div 20)"
proof (cases "T = 0")
  case True
  then show ?thesis
    by (simp add: overhead_of_def float_of_int_def times_0_15_def int_of_float_def round53_exact)
next
  case False
  define t where "t = nat T"
  have T: "T = int t" and tpos: "0 < t" using assms False by (simp_all add: t_def)
  have t51: "t < 2 ^ 51" using assms(2) by (simp add: t_def)
  then have "t < 2 ^ 53" by simp
  then have r: "round53 t = t" by (rule round53_exact)
  have small: "\<not> (2 :: nat) ^ 1024 \<le> t"
    using t51 by (simp add: not_le)
  have f: "float_of_int T = Inr T"
    using tpos r small by (simp add: float_of_int_def T)
  have "times_0_15 T = int (round53 (t * 5404319552844595))"
    using tpos by (simp add: times_0_15_def T)
  then have "int_of_float (times_0_15 T) = int (round53 (t * 5404319552844595)) div 2 ^ 55"
    by (simp add: int_of_float_nonneg)
  also have "\<dots> = int (round53 (t * 5404319552844595) div 2 ^ 55)"
    by (simp add: zdiv_int)
  also have "\<dots> = int (3 * t div 20)" by (simp only: overhead_nat [OF t51])
  also have "\<dots> = 3 * T div 20" by (simp add: T zdiv_int)
  finally show ?thesis using f by (simp add: overhead_of_def)
qed

lemma overhead_nonneg:
  assumes "0 \<le> T" and "overhead_of T = Inr ov"
  shows "0 \<le> ov"
proof -
  from assms(2) obtain d where d: "float_of_int T = Inr d" and ov: "ov = int_of_float (times_0_15 d)"
    by (cases "float_of_int T") (simp_all add: overhead_of_def)
  have "0 \<le> d" using d assms(1)
    by (auto simp: float_of_int_def Let_def sgn_if split: if_splits)
  then have "0 \<le> times_0_15 d" by (simp add: times_0_15_def sgn_if)
  then show ?thesis unfolding ov by (simp add: int_of_float_nonneg)
qed

lemma overhead_defined:
  assumes "0 \<le> T" and "T < 2 ^ 1023"
  shows "\<exists>ov. overhead_of T = Inr ov"
proof -
  have "nat T < 2 ^ 1023" using assms by (simp add: nat_less_iff)
  then have "bit_length (nat T) \<le> 1023" by (rule bit_length_le)
  then have "(2::nat) ^ bit_length (nat T) \<le> 2 ^ 1023"
    by (intro power_increasing) simp_all
  then have "round53 (nat T) \<le> 2 ^ 1023"
    using round53_le_power [of "nat T"] by linarith
  moreover have "(2::nat) ^ 1023 < 2 ^ 1024" by (intro power_strict_increasing) simp_all
  ultimately have "\<not> 2 ^ 1024 \<le> round53 (nat T)" by linarith
  then show ?thesis using assms(1) by (simp add: overhead_of_def float_of_int_def Let_def)
qed

lemma sum_sizes_nonneg: "\<forall>p \<in> set packages. 0 \<le> size_bytes p \<Longrightarrow> 0 \<le> sum_list (map size_bytes packages)"
  by (induction packages) auto

text \<open>At eight petabytes the product rounds up across an integer.\<close>

lemma bit_length_eq: "2 ^ w \<le> n \<Longrightarrow> n < 2 ^ Suc w \<Longrightarrow> bit_length n = Suc w"
  using bit_length_le [of n "Suc w"] bit_length_ge [of w n] by simp

lemma round53_big: "round53 43234556422756830256154186979735 = 43234556422756833657594037927936"
proof -
  have "bit_length 43234556422756830256154186979735 = Suc 105"
    by (rule bit_length_eq) simp_all
  then have b: "bit_length 43234556422756830256154186979735 = 106" by simp
  show ?thesis unfolding round53_def b by (simp add: Let_def)
qed

lemma overhead_big: "overhead_of 8000000000000013 = Inr 1200000000000002"
proof -
  have "round53 8000000000000013 = 8000000000000013" by (rule round53_exact) simp
  then have f: "float_of_int 8000000000000013 = Inr 8000000000000013"
    by (simp add: float_of_int_def)
  have "times_0_15 8000000000000013 = 43234556422756833657594037927936"
    using round53_big by (simp add: times_0_15_def)
  then have "int_of_float (times_0_15 8000000000000013) = 1200000000000002"
    by (simp add: int_of_float_def)
  then show ?thesis using f by (simp add: overhead_of_def)
qed

lemma estimate_big_package:
  "estimate_docker_sizes [big_package] ''python''
     = Inr \<lparr>full = 9200000104857615, slim = 9200000041943055, alpine = 9200000015728655\<rparr>"
  by (simp add: estimate_docker_sizes_def big_package_def overhead_big base_sizes_def)

section \<open>The claims about the estimate\<close>

text \<open>
  Claim C3 says that the estimate adds to the base size and the total \<open>T\<close> the exact
  floor of \<open>0.15 * T\<close>. The code computes \<^verbatim>\<open>int(packages_size * 0.15)\<close> in floating point:
  for one package of 8000000000000013 bytes the overhead is 1200000000000002, one more
  than the floor, so the full variant is 9200000104857615 and not 9200000104857614.
\<close>

theorem estimate_counterexample:
  "estimate_docker_sizes [big_package] ''python''
     = Inr \<lparr>full = 9200000104857615, slim = 9200000041943055, alpine = 9200000015728655\<rparr>
   \<and> 100 * 1024 * 1024 + size_bytes big_package
        + \<lfloor>(15 / 100 :: rat) * of_int (size_bytes big_package)\<rfloor> = 9200000104857614"
proof -
  have s: "size_bytes big_package = 8000000000000013" by (simp add: big_package_def)
  have "\<lfloor>(15 / 100 :: rat) * of_int (size_bytes big_package)\<rfloor>
      = 3 * size_bytes big_package div 20"
    by (rule floor_15_percent)
  then have "100 * 1024 * 1024 + size_bytes big_package
        + \<lfloor>(15 / 100 :: rat) * of_int (size_bytes big_package)\<rfloor> = 9200000104857614"
    unfolding s by simp
  with estimate_big_package show ?thesis by (rule conjI)
qed

text \<open>
  Claim C3, amended. For every list of packages whose total size \<open>T\<close> is at least 0 and
  below \<open>2 ^ 51\<close> bytes, each variant of the estimate is the base size of the ecosystem
  for that variant plus \<open>T\<close> plus the exact floor of \<open>0.15 * T\<close>; for python the
  bases are 100, 40 and 15 MiB, for node 85, 35 and 12 MiB. For every total for which the
  estimate is computed, each variant is its base size plus \<open>T\<close> plus one and the same
  overhead, the truncated binary64 product of \<open>T\<close> and 0.15, so that for python full
  minus slim is exactly 60 MiB.
\<close>

theorem estimate_exact_for_moderate_totals:
  "(0 \<le> sum_list (map size_bytes packages) \<and> sum_list (map size_bytes packages) < 2 ^ 51 \<longrightarrow>
      estimate_docker_sizes packages ''python'' =
        Inr \<lparr>full = 100 * 1024 * 1024 + sum_list (map size_bytes packages)
                     + \<lfloor>(15 / 100 :: rat) * of_int (sum_list (map size_bytes packages))\<rfloor>,
              slim = 40 * 1024 * 1024 + sum_list (map size_bytes packages)
                     + \<lfloor>(15 / 100 :: rat) * of_int (sum_list (map size_bytes packages))\<rfloor>,
              alpine = 15 * 1024 * 1024 + sum_list (map size_bytes packages)
                     + \<lfloor>(15 / 100 :: rat) * of_int (sum_list (map size_bytes packages))\<rfloor>\<rparr>)
   \<and> (0 \<le> sum_list (map size_bytes packages) \<and> sum_list (map size_bytes packages) < 2 ^ 51 \<longrightarrow>
      estimate_docker_sizes packages ''node'' =
        Inr \<lparr>full = 85 * 1024 * 1024 + sum_list (map size_bytes packages)
                     + \<lfloor>(15 / 100 :: rat) * of_int (sum_list (map size_bytes packages))\<rfloor>,
              slim = 35 * 1024 * 1024 + sum_list (map size_bytes packages)
                     + \<lfloor>(15 / 100 :: rat) * of_int (sum_list (map size_bytes packages))\<rfloor>,
              alpine = 12 * 1024 * 1024 + sum_list (map size_bytes packages)
                     + \<lfloor>(15 / 100 :: rat) * of_int (sum_list (map size_bytes packages))\<rfloor>\<rparr>)
   \<and> (estimate_docker_sizes packages ''python'' = Inr d \<longrightarrow>
        full d - slim d = 60 * 1024 * 1024)
   \<and> (estimate_docker_sizes packages t = Inr d \<longrightarrow>
        (\<exists>b ov. base_sizes t = Some b
           \<and> overhead_of (sum_list (map size_bytes packages)) = Inr ov
           \<and> full d = full b + sum_list (map size_bytes packages) + ov
           \<and> slim d = slim b + sum_list (map size_bytes packages) + ov
           \<and> alpine d = alpine b + sum_list (map size_bytes packages) + ov))"
proof -
  let ?T = "sum_list (map size_bytes packages)"
  have ov: "overhead_of ?T = Inr (3 * ?T div 20)" if "0 \<le> ?T \<and> ?T < 2 ^ 51"
    using that overhead_exact by blast
  have a: "estimate_docker_sizes packages ''python'' =
        Inr \<lparr>full = 100 * 1024 * 1024 + ?T + \<lfloor>(15 / 100 :: rat) * of_int ?T\<rfloor>,
              slim = 40 * 1024 * 1024 + ?T + \<lfloor>(15 / 100 :: rat) * of_int ?T\<rfloor>,
              alpine = 15 * 1024 * 1024 + ?T + \<lfloor>(15 / 100 :: rat) * of_int ?T\<rfloor>\<rparr>"
    if "0 \<le> ?T \<and> ?T < 2 ^ 51"
    unfolding floor_15_percent
    by (simp add: estimate_docker_sizes_def ov [OF that] base_sizes_def Let_def)
  have b: "estimate_docker_sizes packages ''node'' =
        Inr \<lparr>full = 85 * 1024 * 1024 + ?T + \<lfloor>(15 / 100 :: rat) * of_int ?T\<rfloor>,
              slim = 35 * 1024 * 1024 + ?T + \<lfloor>(15 / 100 :: rat) * of_int ?T\<rfloor>,
              alpine = 12 * 1024 * 1024 + ?T + \<lfloor>(15 / 100 :: rat) * of_int ?T\<rfloor>\<rparr>"
    if "0 \<le> ?T \<and> ?T < 2 ^ 51"
    unfolding floor_15_percent
    by (simp add: estimate_docker_sizes_def ov [OF that] base_sizes_def Let_def)
  have c: "full d - slim d = 60 * 1024 * 1024"
    if "estimate_docker_sizes packages ''python'' = Inr d"
    using that
    by (auto simp: estimate_docker_sizes_def base_sizes_def Let_def split: sum.splits)
  have e: "\<exists>b ov. base_sizes t = Some b \<and> overhead_of ?T = Inr ov
           \<and> full d = full b + ?T + ov \<and> slim d = slim b + ?T + ov
           \<and> alpine d = alpine b + ?T + ov"
    if "estimate_docker_sizes packages t = Inr d"
    using that
    by (auto simp: estimate_docker_sizes_def Let_def split: sum.splits option.splits)
  show ?thesis
    apply (intro conjI impI)
       apply (erule a)
      apply (erule b)
     apply (erule c)
    apply (erule e)
    done
qed

theorem estimate_exact_for_moderate_totals_witness:
  "estimate_docker_sizes [pkg ''x'' ''1.0''\<lparr>size_bytes := 1000007\<rparr>] ''python'' =
        Inr \<lparr>full = 100 * 1024 * 1024 + 1000007 + \<lfloor>(15 / 100 :: rat) * of_int 1000007\<rfloor>,
              slim = 40 * 1024 * 1024 + 1000007 + \<lfloor>(15 / 100 :: rat) * of_int 1000007\<rfloor>,
              alpine = 15 * 1024 * 1024 + 1000007 + \<lfloor>(15 / 100 :: rat) * of_int 1000007\<rfloor>\<rparr>
   \<and> full \<lparr>full = 9200000104857615, slim = 9200000041943055, alpine = 9200000015728655\<rparr>
       - slim \<lparr>full = 9200000104857615, slim = 9200000041943055, alpine = 9200000015728655\<rparr>
       = 60 * 1024 * 1024"
proof -
  let ?ps = "[pkg ''x'' ''1.0''\<lparr>size_bytes := 1000007\<rparr>]"
  have T: "sum_list (map size_bytes ?ps) = 1000007" by (simp add: pkg_def)
  have h: "0 \<le> sum_list (map size_bytes ?ps) \<and> sum_list (map size_bytes ?ps) < 2 ^ 51"
    unfolding T by simp
  note big = estimate_big_package
  have A: "estimate_docker_sizes ?ps ''python'' =
        Inr \<lparr>full = 100 * 1024 * 1024 + 1000007 + \<lfloor>(15 / 100 :: rat) * of_int 1000007\<rfloor>,
              slim = 40 * 1024 * 1024 + 1000007 + \<lfloor>(15 / 100 :: rat) * of_int 1000007\<rfloor>,
              alpine = 15 * 1024 * 1024 + 1000007 + \<lfloor>(15 / 100 :: rat) * of_int 1000007\<rfloor>\<rparr>"
    using estimate_exact_for_moderate_totals [of ?ps, THEN conjunct1, rule_format, OF h]
    unfolding T .
  have B: "full \<lparr>full = 9200000104857615, slim = 9200000041943055, alpine = 9200000015728655\<rparr>
       - slim \<lparr>full = 9200000104857615, slim = 9200000041943055, alpine = 9200000015728655\<rparr>
       = 60 * 1024 * 1024"
    by (rule estimate_exact_for_moderate_totals [THEN conjunct2, THEN conjunct2, THEN conjunct1,
          rule_format, OF big])
  from A B show ?thesis by (rule conjI)
qed

text \<open>
  Claim C9. When no package has a negative size, each field of the estimate returned is
  at least the base size of the ecosystem for that variant; and for python and node an
  estimate is returned whenever the total is below \<open>2 ^ 1023\<close> bytes.
\<close>

theorem estimate_at_least_base:
  "((\<forall>p \<in> set packages. 0 \<le> size_bytes p) \<and> estimate_docker_sizes packages t = Inr d \<longrightarrow>
      (\<exists>b. base_sizes t = Some b \<and> full b \<le> full d \<and> slim b \<le> slim d \<and> alpine b \<le> alpine d))
   \<and> ((\<forall>p \<in> set packages. 0 \<le> size_bytes p) \<and> sum_list (map size_bytes packages) < 2 ^ 1023
        \<and> (t = ''python'' \<or> t = ''node'') \<longrightarrow>
      (\<exists>d'. estimate_docker_sizes packages t = Inr d'))"
proof -
  let ?T = "sum_list (map size_bytes packages)"
  have a: "\<exists>b. base_sizes t = Some b \<and> full b \<le> full d \<and> slim b \<le> slim d \<and> alpine b \<le> alpine d"
    if h: "(\<forall>p \<in> set packages. 0 \<le> size_bytes p) \<and> estimate_docker_sizes packages t = Inr d"
  proof -
    from h have T: "0 \<le> ?T" using sum_sizes_nonneg by blast
    from h obtain ov b where ov: "overhead_of ?T = Inr ov" and b: "base_sizes t = Some b"
      and d: "d = \<lparr>full = full b + ?T + ov, slim = slim b + ?T + ov, alpine = alpine b + ?T + ov\<rparr>"
      by (auto simp: estimate_docker_sizes_def Let_def split: sum.splits option.splits)
    have "0 \<le> ov" using T ov by (rule overhead_nonneg)
    then show ?thesis using b d T by simp
  qed
  have b: "\<exists>d'. estimate_docker_sizes packages t = Inr d'"
    if h: "(\<forall>p \<in> set packages. 0 \<le> size_bytes p) \<and> ?T < 2 ^ 1023
        \<and> (t = ''python'' \<or> t = ''node'')"
  proof -
    from h have T: "0 \<le> ?T" using sum_sizes_nonneg by blast
    from h have "?T < 2 ^ 1023" by blast
    with T obtain ov where "overhead_of ?T = Inr ov" using overhead_defined by blast
    moreover from h have "\<exists>b. base_sizes t = Some b" by (auto simp: base_sizes_def)
    ultimately show ?thesis
      by (auto simp: estimate_docker_sizes_def Let_def)
  qed
  show ?thesis
    apply (intro conjI impI)
     apply (erule a)
    apply (erule b)
    done
qed

theorem estimate_at_least_base_witness:
  "(\<exists>b. base_sizes ''node'' = Some b
       \<and> full b \<le> full \<lparr>full = 89128965, slim = 36700165, alpine = 12582917\<rparr>
       \<and> slim b \<le> slim \<lparr>full = 89128965, slim = 36700165, alpine = 12582917\<rparr>
       \<and> alpine b \<le> alpine \<lparr>full = 89128965, slim = 36700165, alpine = 12582917\<rparr>)
   \<and> (\<exists>d'. estimate_docker_sizes [pkg ''a'' ''2.0.0''\<lparr>size_bytes := 5\<rparr>] ''node'' = Inr d')"
proof -
  let ?ps = "[pkg ''a'' ''2.0.0''\<lparr>size_bytes := 5\<rparr>]"
  have nn: "\<forall>p \<in> set ?ps. 0 \<le> size_bytes p" by (simp add: pkg_def)
  have e: "estimate_docker_sizes ?ps ''node''
      = Inr \<lparr>full = 89128965, slim = 36700165, alpine = 12582917\<rparr>"
    by (simp add: estimate_docker_sizes_def pkg_def base_sizes_def
        overhead_exact [of 5, simplified])
  have small: "sum_list (map size_bytes ?ps) < 2 ^ 1023" by (simp add: pkg_def)
  have A: "\<exists>b. base_sizes ''node'' = Some b
       \<and> full b \<le> full \<lparr>full = 89128965, slim = 36700165, alpine = 12582917\<rparr>
       \<and> slim b \<le> slim \<lparr>full = 89128965, slim = 36700165, alpine = 12582917\<rparr>
       \<and> alpine b \<le> alpine \<lparr>full = 89128965, slim = 36700165, alpine = 12582917\<rparr>"
    by (rule estimate_at_least_base [THEN conjunct1, rule_format, OF conjI, OF nn e])
  have B: "\<exists>d'. estimate_docker_sizes ?ps ''node'' = Inr d'"
    by (rule estimate_at_least_base [THEN conjunct2, rule_format,
          OF conjI, OF nn conjI, OF small disjI2, OF refl])
  from A B show ?thesis by (rule conjI)
qed

end
